theory Spec2Isabelle
  imports Complex_Main
begin

section \<open>The research server: submissions, reports and knowledge bases\<close>

text \<open>
  A shallow embedding of \<^verbatim>\<open>backend/server/server.py\<close>: the route handlers
  \<^verbatim>\<open>read_report\<close>, \<^verbatim>\<open>write_report\<close>, \<^verbatim>\<open>generate_report\<close>,
  \<^verbatim>\<open>upload_file\<close> and \<^verbatim>\<open>get_knowledge_bases\<close>. The process state the
  handlers touch (the environment \<^verbatim>\<open>os.environ\<close>, the file system, the queue of
  background tasks) is a record that every handler takes and returns. A raised
  exception is a value \<open>Inl e\<close>. Strings are lists of 8-bit characters.
\<close>

subsection \<open>Python values\<close>

datatype error =
    KeyError string
  | FileNotFoundError string
  | FileExistsError string
  | NotADirectoryError string
  | Raised string

text \<open>JSON values: what a handler returns as a \<^verbatim>\<open>dict\<close>.\<close>

datatype json =
    JNull
  | JStr string
  | JInt int
  | JNum rat
  | JList "json list"
  | JObj "(string \<times> json) list"

text \<open>\<^verbatim>\<open>d[k]\<close> on a JSON object, where the key may be missing.\<close>

fun field :: "json \<Rightarrow> string \<Rightarrow> json option" where
  "field (JObj kvs) k = map_of kvs k"
| "field _ k = None"

text \<open>
  What a route hands back to the framework: a returned \<^verbatim>\<open>dict\<close> (serialised
  with status 200), an explicit \<^verbatim>\<open>JSONResponse\<close> with its status code, or a
  \<^verbatim>\<open>FileResponse\<close> for a path.
\<close>

datatype http_response =
    Body json
  | JSONResponse nat json
  | FileResponse string

fun status_code :: "http_response \<Rightarrow> nat" where
  "status_code (Body _) = 200"
| "status_code (JSONResponse c _) = c"
| "status_code (FileResponse _) = 200"

text \<open>
  \<^verbatim>\<open>int(x)\<close> on a float truncates towards zero. The value of a float is a rational
  number, so the clock reading \<^verbatim>\<open>time.time()\<close> is a \<^typ>\<open>rat\<close>.
\<close>

definition py_int :: "rat \<Rightarrow> int" where
  "py_int x = (if 0 \<le> x then \<lfloor>x\<rfloor> else \<lceil>x\<rceil>)"

text \<open>\<^verbatim>\<open>str(n)\<close> for an integer: decimal digits, a minus sign when negative.\<close>

definition digit_char :: "nat \<Rightarrow> char" where
  "digit_char d = char_of (48 + d)"

fun str_nat :: "nat \<Rightarrow> string" where
  "str_nat n = (if n < 10 then [digit_char n] else str_nat (n div 10) @ [digit_char (n mod 10)])"

declare str_nat.simps [simp del]

definition str_int :: "int \<Rightarrow> string" where
  "str_int i = (if i < 0 then CHR ''-'' # str_nat (nat (- i)) else str_nat (nat i))"

text \<open>\<^verbatim>\<open>d.get(k, default)\<close> on a dictionary kept as an association list.\<close>

definition dict_get :: "('k \<times> 'v) list \<Rightarrow> 'k \<Rightarrow> 'v \<Rightarrow> 'v" where
  "dict_get d k dflt = (case map_of d k of None \<Rightarrow> dflt | Some v \<Rightarrow> v)"

subsection \<open>The identity sanitiser\<close>

definition is_path_separator :: "char \<Rightarrow> bool" where
  "is_path_separator c = (c = CHR ''/'' \<or> c = CHR 0x5C)"

definition is_control :: "char \<Rightarrow> bool" where
  "is_control c = ((of_char c :: nat) < 32 \<or> (of_char c :: nat) = 127)"

text \<open>
  The characters a file name may not hold on the common file systems, and the
  delimiters of a URL: \<^verbatim>\<open>< > : | ? * # % &\<close> and the double quote.
\<close>

definition is_invalid_fs_url :: "char \<Rightarrow> bool" where
  "is_invalid_fs_url c = (c \<in> set ''<>:|?*#%&'' \<or> c = CHR 0x22)"

definition storage_safe :: "char \<Rightarrow> bool" where
  "storage_safe c = (\<not> is_path_separator c \<and> \<not> is_control c \<and> \<not> is_invalid_fs_url c)"

text \<open>
  Modelled from the spec: \<^verbatim>\<open>sanitize_filename\<close> is imported from
  \<^verbatim>\<open>backend/server/server_utils.py\<close>, which is not among the sources. The
  specification says of a job identity that it is "sanitized to be safe as a storage
  key (no path separators, control characters, or characters invalid for
  filesystem/URL use)": the model drops exactly those characters and keeps the rest
  in order.
\<close>

definition sanitize_filename :: "string \<Rightarrow> string" where
  "sanitize_filename s = filter storage_safe s"

subsection \<open>The file system and \<^verbatim>\<open>os.path\<close>\<close>

text \<open>
  The file system is a table from absolute paths, kept as lists of names from the
  root, to nodes; the root itself is always a directory. Path strings are resolved
  as the operating system does it: name by name from the root or from the working
  directory, every name looked up in the directory reached so far. Permissions,
  quotas, symbolic links and limits on the length of a name are outside the model.
\<close>

datatype node = Dir | File string

type_synonym path = "string list"

record filesystem =
  cwd :: path
  entries :: "(path \<times> node) list"

definition lookup :: "filesystem \<Rightarrow> path \<Rightarrow> node option" where
  "lookup fs p = (if p = [] then Some Dir else map_of (entries fs) p)"

text \<open>\<^verbatim>\<open>s.split(sep)\<close> for a one-character separator.\<close>

fun split_on :: "char \<Rightarrow> string \<Rightarrow> string list" where
  "split_on sep [] = [[]]"
| "split_on sep (c # cs) =
     (if c = sep then [] # split_on sep cs
      else (case split_on sep cs of [] \<Rightarrow> [[c]] | x # xs \<Rightarrow> (c # x) # xs))"

text \<open>
  One name of a path, followed from the directory \<open>cur\<close>: the empty name and
  \<^verbatim>\<open>.\<close> stay, \<^verbatim>\<open>..\<close> goes to the parent, any other name must exist.
\<close>

fun walk :: "filesystem \<Rightarrow> path \<Rightarrow> string list \<Rightarrow> path option" where
  "walk fs cur [] = Some cur"
| "walk fs cur (c # cs) =
     (if lookup fs cur \<noteq> Some Dir then None
      else if c = [] \<or> c = ''.'' then walk fs cur cs
      else if c = ''..'' then walk fs (butlast cur) cs
      else if lookup fs (cur @ [c]) = None then None
      else walk fs (cur @ [c]) cs)"

definition start_dir :: "filesystem \<Rightarrow> string \<Rightarrow> path" where
  "start_dir fs p = (if hd p = CHR ''/'' then [] else cwd fs)"

definition resolve :: "filesystem \<Rightarrow> string \<Rightarrow> path option" where
  "resolve fs p = (if p = [] then None else walk fs (start_dir fs p) (split_on CHR ''/'' p))"

definition os_path_exists :: "filesystem \<Rightarrow> string \<Rightarrow> bool" where
  "os_path_exists fs p = (resolve fs p \<noteq> None)"

definition os_path_isdir :: "filesystem \<Rightarrow> string \<Rightarrow> bool" where
  "os_path_isdir fs p = (case resolve fs p of None \<Rightarrow> False | Some q \<Rightarrow> lookup fs q = Some Dir)"

text \<open>The names in the directory at \<open>q\<close>, and \<^verbatim>\<open>os.listdir\<close>.\<close>

definition children :: "filesystem \<Rightarrow> path \<Rightarrow> string list" where
  "children fs q = map (last \<circ> fst) (filter (\<lambda>(r, n). r \<noteq> [] \<and> butlast r = q) (entries fs))"

definition os_listdir :: "filesystem \<Rightarrow> string \<Rightarrow> error + string list" where
  "os_listdir fs p =
     (case resolve fs p of
        None \<Rightarrow> Inl (FileNotFoundError p)
      | Some q \<Rightarrow>
          if lookup fs q = Some Dir then Inr (children fs q) else Inl (NotADirectoryError p))"

text \<open>\<^verbatim>\<open>os.path.join(a, b)\<close> of \<^verbatim>\<open>posixpath\<close>.\<close>

definition os_path_join :: "string \<Rightarrow> string \<Rightarrow> string" where
  "os_path_join a b =
     (if b \<noteq> [] \<and> hd b = CHR ''/'' then b
      else if a = [] \<or> last a = CHR ''/'' then a @ b
      else a @ ''/'' @ b)"

text \<open>
  \<^verbatim>\<open>os.makedirs(name, exist_ok=True)\<close>: every name of the path that is missing
  is created as a directory, one that is a directory already is entered, and a
  regular file in the way is an error (\<^verbatim>\<open>FileExistsError\<close> when it is the
  last name of the path, \<^verbatim>\<open>NotADirectoryError\<close> when more names follow).
\<close>

fun make_walk :: "string \<Rightarrow> filesystem \<Rightarrow> path \<Rightarrow> string list \<Rightarrow> error + filesystem" where
  "make_walk name fs cur [] = Inr fs"
| "make_walk name fs cur (c # cs) =
     (if c = [] \<or> c = ''.'' then make_walk name fs cur cs
      else if c = ''..'' then make_walk name fs (butlast cur) cs
      else (case lookup fs (cur @ [c]) of
              None \<Rightarrow> make_walk name (fs\<lparr>entries := entries fs @ [(cur @ [c], Dir)]\<rparr>) (cur @ [c]) cs
            | Some Dir \<Rightarrow> make_walk name fs (cur @ [c]) cs
            | Some (File x) \<Rightarrow>
                Inl (if list_all (\<lambda>c'. c' = []) cs then FileExistsError name
                     else NotADirectoryError name)))"

definition os_makedirs :: "filesystem \<Rightarrow> string \<Rightarrow> error + filesystem" where
  "os_makedirs fs p =
     (if p = [] then Inl (FileNotFoundError p)
      else make_walk p fs (start_dir fs p) (split_on CHR ''/'' p))"

text \<open>
  What every file system satisfies: a directory holds each name once, a name is
  not empty, \<^verbatim>\<open>.\<close> or \<^verbatim>\<open>..\<close> and has no slash, every entry lies in a
  directory, and the working directory is a directory.
\<close>

definition valid_name :: "string \<Rightarrow> bool" where
  "valid_name c = (c \<noteq> [] \<and> c \<noteq> ''.'' \<and> c \<noteq> ''..'' \<and> CHR ''/'' \<notin> set c)"

definition wf_fs :: "filesystem \<Rightarrow> bool" where
  "wf_fs fs =
     (distinct (map fst (entries fs)) \<and>
      list_all (\<lambda>(p, n). p \<noteq> [] \<and> valid_name (last p) \<and> lookup fs (butlast p) = Some Dir) (entries fs) \<and>
      lookup fs (cwd fs) = Some Dir)"

text \<open>
  The places the names of a path lead through, read off the path alone, and the
  paths on which no regular file stands at any of them.
\<close>

definition step :: "path \<Rightarrow> string \<Rightarrow> path" where
  "step cur c = (if c = [] \<or> c = ''.'' then cur else if c = ''..'' then butlast cur else cur @ [c])"

fun visited :: "path \<Rightarrow> string list \<Rightarrow> path list" where
  "visited cur [] = []"
| "visited cur (c # cs) = step cur c # visited (step cur c) cs"

definition is_regular :: "node option \<Rightarrow> bool" where
  "is_regular n = (case n of Some (File x) \<Rightarrow> True | _ \<Rightarrow> False)"

definition unobstructed :: "filesystem \<Rightarrow> string \<Rightarrow> bool" where
  "unobstructed fs p =
     list_all (\<lambda>q. \<not> is_regular (lookup fs q)) (visited (start_dir fs p) (split_on CHR ''/'' p))"

text \<open>
  What an upload handler leaves in place when it takes the file system \<open>fs\<close> to
  \<open>fs'\<close>: the working directory and every directory of \<open>fs\<close>.
\<close>

definition keeps_directories :: "filesystem \<Rightarrow> filesystem \<Rightarrow> bool" where
  "keeps_directories fs fs' =
     (wf_fs fs' \<and> cwd fs' = cwd fs \<and>
      list_all (\<lambda>(p, n). n = Dir \<longrightarrow> lookup fs' p = Some Dir) (entries fs))"

subsection \<open>Requests and collaborators\<close>

text \<open>
  \<^verbatim>\<open>class ResearchRequest(BaseModel)\<close>. The optional fields default to
  \<^verbatim>\<open>None\<close>; the values of \<^verbatim>\<open>deep_research_config\<close> are the integers
  the interface names (depth and breadth).
\<close>

record research_request =
  task :: string
  report_type :: string
  report_source :: string
  tone :: string
  headers :: "(string \<times> string) list option"
  repo_name :: string
  branch_name :: string
  knowledge_base :: "string option"
  deep_research_config :: "(string \<times> int) list option"
  generate_in_background :: bool

text \<open>
  The researcher object \<^verbatim>\<open>run_agent\<close> returns beside the report
  (\<^verbatim>\<open>return_researcher=True\<close>), as far as \<^verbatim>\<open>write_report\<close> reads it.
\<close>

record researcher =
  get_source_urls :: "string list"
  get_costs :: rat
  visited_urls :: "string list"
  get_research_images :: "string list"

text \<open>The keyword arguments of the call of \<^verbatim>\<open>run_agent\<close>.\<close>

record agent_call =
  agent_task :: string
  agent_report_type :: string
  agent_report_source :: string
  agent_source_urls :: "string list"
  agent_document_urls :: "string list"
  agent_tone :: string
  agent_headers :: "(string \<times> string) list option"
  agent_query_domains :: "string list"
  agent_config_path :: string
  agent_vector_store_path :: "string option"

text \<open>An uploaded file (\<^verbatim>\<open>UploadFile\<close>): its name and its bytes.\<close>

record upload =
  filename :: string
  content :: string

text \<open>
  The collaborators \<^verbatim>\<open>server.py\<close> imports and calls, none of them among the
  sources, are parameters of the model: the members of the enumeration
  \<^verbatim>\<open>Tone\<close> by name, the research computation \<^verbatim>\<open>run_agent\<close> (it reads the
  environment, from which its configuration is populated), and the two renderers.
  \<^verbatim>\<open>handle_file_upload\<close> stores an upload under a directory of the file
  system. Each of the calls either returns or raises; what the computation and the
  renderers do to the process state themselves is outside the model.
\<close>

record services =
  Tone :: "string \<Rightarrow> string option"
  run_agent :: "agent_call \<Rightarrow> (string \<Rightarrow> string option) \<Rightarrow> error + (string \<times> researcher)"
  write_md_to_word :: "string \<Rightarrow> string \<Rightarrow> error + string"
  write_md_to_pdf :: "string \<Rightarrow> string \<Rightarrow> error + string"
  handle_file_upload :: "upload \<Rightarrow> string \<Rightarrow> filesystem \<Rightarrow> (error + json) \<times> filesystem"

subsection \<open>The process state\<close>

text \<open>
  \<^verbatim>\<open>os.environ\<close>, the file system, and the tasks handed to
  \<^verbatim>\<open>BackgroundTasks.add_task\<close>, which the framework runs after the response has
  been sent.
\<close>

record world =
  environ :: "string \<Rightarrow> string option"
  fsys :: filesystem
  background_tasks :: "(research_request \<times> string) list"

text \<open>\<^verbatim>\<open>os.environ.get(k, default)\<close>.\<close>

definition environ_get :: "(string \<Rightarrow> string option) \<Rightarrow> string \<Rightarrow> string \<Rightarrow> string" where
  "environ_get env k dflt = (case env k of None \<Rightarrow> dflt | Some v \<Rightarrow> v)"

subsection \<open>Start-up and the routes\<close>

text \<open>
  \<^verbatim>\<open>startup_event\<close> makes the directory \<^verbatim>\<open>outputs\<close> and the root of the
  knowledge bases (mounting the static files is not modelled).
\<close>

definition startup_event :: "world \<Rightarrow> (error + unit) \<times> world" where
  "startup_event w =
     (case os_makedirs (fsys w) ''outputs'' of
        Inl e \<Rightarrow> (Inl e, w)
      | Inr fs1 \<Rightarrow>
          (let vector_store_path = environ_get (environ w) ''VECTOR_STORE_PATH'' ''vector_store''
           in case os_makedirs fs1 vector_store_path of
                Inl e \<Rightarrow> (Inl e, w\<lparr>fsys := fs1\<rparr>)
              | Inr fs2 \<Rightarrow> (Inr (), w\<lparr>fsys := fs2\<rparr>)))"

definition read_report :: "string \<Rightarrow> world \<Rightarrow> http_response" where
  "read_report research_id w =
     (let docx_path = os_path_join ''outputs'' (research_id @ ''.docx'')
      in if \<not> os_path_exists (fsys w) docx_path
         then Body (JObj [(''message'', JStr ''Report not found.'')])
         else FileResponse docx_path)"

text \<open>
  \<^verbatim>\<open>write_report\<close> in its three parts. First the environment is written
  (the statements before the call of \<^verbatim>\<open>run_agent\<close>): the deep-research
  parameters when a non-empty configuration is given, and \<^verbatim>\<open>DOC_PATH\<close> when a
  non-empty knowledge base is named; its result is the local
  \<^verbatim>\<open>vector_store_path\<close> and the new environment.
\<close>

definition configure_environment ::
  "research_request \<Rightarrow> (string \<Rightarrow> string option) \<Rightarrow> string option \<times> (string \<Rightarrow> string option)" where
  "configure_environment req env =
     (let env1 =
            (case deep_research_config req of
               None \<Rightarrow> env
             | Some cfg \<Rightarrow>
                 if cfg = [] then env
                 else env
                   (''DEEP_RESEARCH_DEPTH'' \<mapsto> str_int (dict_get cfg ''max_iterations'' 2),
                    ''DEEP_RESEARCH_BREADTH'' \<mapsto> str_int (dict_get cfg ''max_search_results_per_query'' 4)))
      in case knowledge_base req of
           None \<Rightarrow> (None, env1)
         | Some kb \<Rightarrow>
             if kb = [] then (None, env1)
             else (let vector_store_base_path = environ_get env1 ''VECTOR_STORE_PATH'' ''vector_store'';
                       kb_path = os_path_join vector_store_base_path kb;
                       doc_path = os_path_join kb_path ''docs''
                   in (Some kb_path, env1(''DOC_PATH'' \<mapsto> doc_path))))"

text \<open>Last the response is put together (the statements after the two renderers).\<close>

definition report_response ::
  "research_request \<Rightarrow> string \<Rightarrow> string \<times> researcher \<Rightarrow> string \<Rightarrow> string \<Rightarrow> json" where
  "report_response req research_id report_information docx_path pdf_path =
     (if report_type req \<noteq> ''multi_agents'' then
        (let (report, researcher) = report_information
         in JObj
              [(''research_id'', JStr research_id),
               (''research_information'', JObj
                  [(''source_urls'', JList (map JStr (get_source_urls researcher))),
                   (''research_costs'', JNum (get_costs researcher)),
                   (''visited_urls'', JList (map JStr (visited_urls researcher))),
                   (''research_images'', JList (map JStr (get_research_images researcher)))]),
               (''report'', JStr report),
               (''docx_path'', JStr docx_path),
               (''pdf_path'', JStr pdf_path)])
      else
        JObj [(''research_id'', JStr research_id), (''report'', JStr []),
              (''docx_path'', JStr docx_path), (''pdf_path'', JStr pdf_path)])"

text \<open>
  In between, the arguments of \<^verbatim>\<open>run_agent\<close> are evaluated
  (\<^verbatim>\<open>Tone[...]\<close> raises \<^verbatim>\<open>KeyError\<close> for a name that is no member), the
  computation runs, and the two renderers run on the report
  (\<^verbatim>\<open>report_information[0]\<close>).
\<close>

definition write_report :: "services \<Rightarrow> research_request \<Rightarrow> string \<Rightarrow> world \<Rightarrow> (error + json) \<times> world" where
  "write_report S req research_id w =
     (case configure_environment req (environ w) of
        (vector_store_path, env2) \<Rightarrow>
          (case Tone S (tone req) of
             None \<Rightarrow> (Inl (KeyError (tone req)), w\<lparr>environ := env2\<rparr>)
           | Some t \<Rightarrow>
              (case run_agent S
                      \<lparr>agent_task = task req, agent_report_type = report_type req,
                       agent_report_source = report_source req, agent_source_urls = [],
                       agent_document_urls = [], agent_tone = t, agent_headers = headers req,
                       agent_query_domains = [], agent_config_path = [],
                       agent_vector_store_path = vector_store_path\<rparr> env2 of
                 Inl e \<Rightarrow> (Inl e, w\<lparr>environ := env2\<rparr>)
               | Inr report_information \<Rightarrow>
                  (case write_md_to_word S (fst report_information) research_id of
                     Inl e \<Rightarrow> (Inl e, w\<lparr>environ := env2\<rparr>)
                   | Inr docx_path \<Rightarrow>
                      (case write_md_to_pdf S (fst report_information) research_id of
                         Inl e \<Rightarrow> (Inl e, w\<lparr>environ := env2\<rparr>)
                       | Inr pdf_path \<Rightarrow>
                           (Inr (report_response req research_id report_information docx_path pdf_path),
                            w\<lparr>environ := env2\<rparr>))))))"

text \<open>
  \<^verbatim>\<open>generate_report\<close>, with the reading \<open>now\<close> of the clock
  (\<^verbatim>\<open>time.time()\<close>) as an argument.
\<close>

definition generate_report :: "services \<Rightarrow> rat \<Rightarrow> research_request \<Rightarrow> world \<Rightarrow> (error + json) \<times> world" where
  "generate_report S now req w =
     (let research_id = sanitize_filename (''task_'' @ str_int (py_int now) @ ''_'' @ task req)
      in if generate_in_background req then
           (Inr (JObj
              [(''message'', JStr ''Your report is being generated in the background. Please check back later.''),
               (''research_id'', JStr research_id)]),
            w\<lparr>background_tasks := background_tasks w @ [(req, research_id)]\<rparr>)
         else write_report S req research_id w)"

definition upload_file :: "services \<Rightarrow> upload \<Rightarrow> string \<Rightarrow> world \<Rightarrow> (error + http_response) \<times> world" where
  "upload_file S file kb_name w =
     (if kb_name = [] then
        (Inr (JSONResponse 400 (JObj [(''message'', JStr ''Knowledge base name is required.'')])), w)
      else
        (let vector_store_base_path = environ_get (environ w) ''VECTOR_STORE_PATH'' ''vector_store'';
             kb_path = os_path_join vector_store_base_path kb_name;
             doc_path = os_path_join kb_path ''docs''
         in case os_makedirs (fsys w) doc_path of
              Inl e \<Rightarrow> (Inl e, w)
            | Inr fs1 \<Rightarrow>
               (case handle_file_upload S file doc_path fs1 of
                  (r, fs2) \<Rightarrow> (map_sum id Body r, w\<lparr>fsys := fs2\<rparr>))))"

definition get_knowledge_bases :: "world \<Rightarrow> error + json" where
  "get_knowledge_bases w =
     (let vector_store_path = environ_get (environ w) ''VECTOR_STORE_PATH'' ''vector_store''
      in if \<not> os_path_isdir (fsys w) vector_store_path then Inr (JObj [(''knowledge_bases'', JList [])])
         else (case os_listdir (fsys w) vector_store_path of
                 Inl e \<Rightarrow> Inl e
               | Inr names \<Rightarrow>
                   (let directories =
                          filter (\<lambda>d. os_path_isdir (fsys w) (os_path_join vector_store_path d)) names
                    in Inr (JObj [(''knowledge_bases'', JList (map JStr directories))]))))"

subsection \<open>Stand-ins for the collaborators\<close>

text \<open>
  To run the model on examples: an enumeration with one member, a computation
  that returns at once, renderers that answer with the paths under
  \<^verbatim>\<open>outputs\<close>, and an upload handler that writes the file into the directory
  it is given.
\<close>

definition store_upload :: "upload \<Rightarrow> string \<Rightarrow> filesystem \<Rightarrow> (error + json) \<times> filesystem" where
  "store_upload file doc_path fs =
     (case resolve fs doc_path of
        None \<Rightarrow> (Inl (FileNotFoundError doc_path), fs)
      | Some q \<Rightarrow>
          if lookup fs (q @ [filename file]) = None
          then (Inr (JObj [(''filename'', JStr (filename file)),
                           (''path'', JStr (os_path_join doc_path (filename file)))]),
                fs\<lparr>entries := entries fs @ [(q @ [filename file], File (content file))]\<rparr>)
          else (Inl (FileExistsError (os_path_join doc_path (filename file))), fs))"

definition example_researcher :: researcher where
  "example_researcher =
     \<lparr>get_source_urls = [''https://example.org/a''], get_costs = 1 / 4,
      visited_urls = [''https://example.org/a'', ''https://example.org/b''],
      get_research_images = []\<rparr>"

definition example_services :: services where
  "example_services =
     \<lparr>Tone = [''Objective'' \<mapsto> ''Objective''],
      run_agent = (\<lambda>a env. Inr (''# '' @ agent_task a, example_researcher)),
      write_md_to_word = (\<lambda>text_md rid. Inr (''outputs/'' @ rid @ ''.docx'')),
      write_md_to_pdf = (\<lambda>text_md rid. Inr (''outputs/'' @ rid @ ''.pdf'')),
      handle_file_upload = store_upload\<rparr>"

definition example_fs :: filesystem where
  "example_fs =
     \<lparr>cwd = [''srv''],
      entries = [([''srv''], Dir), ([''srv'', ''outputs''], Dir), ([''srv'', ''vector_store''], Dir),
                 ([''srv'', ''notes.txt''], File ''n'')]\<rparr>"

definition example_world :: world where
  "example_world = \<lparr>environ = Map.empty, fsys = example_fs, background_tasks = []\<rparr>"

text \<open>The same state once the report \<^verbatim>\<open>task_100_foo\<close> has been rendered.\<close>

definition example_world_rendered :: world where
  "example_world_rendered =
     example_world\<lparr>fsys := example_fs\<lparr>entries := entries example_fs @
       [([''srv'', ''outputs'', ''task_100_foo.docx''], File ''docx'')]\<rparr>\<rparr>"

definition example_request :: research_request where
  "example_request =
     \<lparr>task = ''foo'', report_type = ''research_report'', report_source = ''web'',
      tone = ''Objective'', headers = None, repo_name = ''repo'', branch_name = ''main'',
      knowledge_base = None, deep_research_config = None, generate_in_background = True\<rparr>"

definition example_upload :: upload where
  "example_upload = \<lparr>filename = ''a.txt'', content = ''hello''\<rparr>"

section \<open>Decimal numerals and the shape of a job identity\<close>

lemma digit_char_of_char: "d < 10 \<Longrightarrow> (of_char (digit_char d) :: nat) = 48 + d"
  by (simp add: digit_char_def)

lemma digit_char_inj:
  assumes "a < 10" "b < 10" "digit_char a = digit_char b"
  shows "a = b"
proof -
  have "(of_char (digit_char a) :: nat) = of_char (digit_char b)"
    by (simp only: assms(3))
  then have "48 + a = 48 + b"
    by (simp only: digit_char_of_char[OF assms(1)] digit_char_of_char[OF assms(2)])
  then show ?thesis by simp
qed

lemma str_nat_small: "n < 10 \<Longrightarrow> str_nat n = [digit_char n]"
  by (subst str_nat.simps) simp

lemma str_nat_big: "\<not> n < 10 \<Longrightarrow> str_nat n = str_nat (n div 10) @ [digit_char (n mod 10)]"
  by (subst str_nat.simps) simp

lemma str_nat_nonempty: "str_nat n \<noteq> []"
  by (subst str_nat.simps) simp

lemma str_nat_big_length:
  assumes "\<not> n < 10"
  shows "length (str_nat n) \<ge> 2"
proof -
  have "length (str_nat (n div 10)) \<ge> 1"
    using str_nat_nonempty[of "n div 10"] by (cases "str_nat (n div 10)") simp_all
  then show ?thesis by (subst str_nat_big[OF assms]) simp
qed

lemma str_nat_digits: "c \<in> set (str_nat n) \<Longrightarrow> \<exists>d<10. c = digit_char d"
proof (induction n rule: str_nat.induct)
  case (1 n)
  show ?case
  proof (cases "n < 10")
    case True
    with "1.prems" show ?thesis by (auto simp: str_nat_small)
  next
    case False
    from "1.prems" have "c \<in> set (str_nat (n div 10) @ [digit_char (n mod 10)])"
      by (simp only: str_nat_big[OF False])
    then have "c \<in> set (str_nat (n div 10)) \<or> c = digit_char (n mod 10)"
      by auto
    then show ?thesis
    proof
      assume "c \<in> set (str_nat (n div 10))"
      then show ?thesis by (rule "1.IH"[OF False])
    next
      assume "c = digit_char (n mod 10)"
      moreover have "n mod 10 < 10" by simp
      ultimately show ?thesis by blast
    qed
  qed
qed

lemma str_nat_inj: "str_nat n = str_nat m \<Longrightarrow> n = m"
proof (induction n arbitrary: m rule: str_nat.induct)
  case (1 n)
  show ?case
  proof (cases "n < 10")
    case n: True
    show ?thesis
    proof (cases "m < 10")
      case True
      from "1.prems" have "digit_char n = digit_char m"
        by (simp add: str_nat_small n True)
      then show ?thesis by (rule digit_char_inj[OF n True])
    next
      case False
      have "length (str_nat m) \<ge> 2" by (rule str_nat_big_length[OF False])
      moreover have "length (str_nat n) = 1" by (simp add: str_nat_small n)
      ultimately show ?thesis using "1.prems" by simp
    qed
  next
    case n: False
    show ?thesis
    proof (cases "m < 10")
      case True
      have "length (str_nat n) \<ge> 2" by (rule str_nat_big_length[OF n])
      moreover have "length (str_nat m) = 1" by (simp add: str_nat_small True)
      ultimately show ?thesis using "1.prems" by simp
    next
      case False
      have "str_nat (n div 10) @ [digit_char (n mod 10)] = str_nat (m div 10) @ [digit_char (m mod 10)]"
        using "1.prems" by (simp only: str_nat_big[OF n] str_nat_big[OF False])
      then have a: "str_nat (n div 10) = str_nat (m div 10)"
        and b: "digit_char (n mod 10) = digit_char (m mod 10)" by simp_all
      from a have "n div 10 = m div 10" by (rule "1.IH"[OF n])
      moreover have "n mod 10 = m mod 10"
        by (rule digit_char_inj[OF _ _ b]) simp_all
      ultimately show ?thesis by (metis div_mult_mod_eq)
    qed
  qed
qed

lemma storage_safe_digit: "d < 10 \<Longrightarrow> storage_safe (digit_char d)"
  using digit_char_of_char[of d]
  by (auto simp: storage_safe_def is_path_separator_def is_control_def is_invalid_fs_url_def)

lemma digit_char_not_sep: "d < 10 \<Longrightarrow> digit_char d \<noteq> CHR ''_'' \<and> digit_char d \<noteq> CHR ''-''"
  using digit_char_of_char[of d] by auto

lemma storage_safe_str_nat: "c \<in> set (str_nat n) \<Longrightarrow> storage_safe c"
  using str_nat_digits storage_safe_digit by blast

lemma storage_safe_minus: "storage_safe (CHR ''-'')"
  by (simp add: storage_safe_def is_path_separator_def is_control_def is_invalid_fs_url_def)

lemma storage_safe_str_int: "c \<in> set (str_int i) \<Longrightarrow> storage_safe c"
  by (auto simp: str_int_def storage_safe_minus storage_safe_str_nat split: if_splits)

lemma minus_notin_str_nat: "CHR ''-'' \<notin> set (str_nat n)"
proof
  assume "CHR ''-'' \<in> set (str_nat n)"
  then obtain d where "d < 10" "CHR ''-'' = digit_char d" using str_nat_digits by blast
  then show False using digit_char_not_sep[of d] by simp
qed

lemma underscore_notin_str_nat: "CHR ''_'' \<notin> set (str_nat n)"
proof
  assume "CHR ''_'' \<in> set (str_nat n)"
  then obtain d where "d < 10" "CHR ''_'' = digit_char d" using str_nat_digits by blast
  then show False using digit_char_not_sep[of d] by simp
qed

lemma underscore_notin_str_int: "CHR ''_'' \<notin> set (str_int i)"
  by (simp add: str_int_def underscore_notin_str_nat)

lemma str_int_inj: "str_int i = str_int j \<Longrightarrow> i = j"
proof -
  assume eq: "str_int i = str_int j"
  have hd_pos: "\<And>n. hd (str_nat n) \<noteq> CHR ''-''"
    using minus_notin_str_nat str_nat_nonempty by (metis hd_in_set)
  show ?thesis
  proof (cases "i < 0")
    case i: True
    show ?thesis
    proof (cases "j < 0")
      case True
      with i eq have "str_nat (nat (- i)) = str_nat (nat (- j))" by (simp add: str_int_def)
      then have "nat (- i) = nat (- j)" by (rule str_nat_inj)
      with i True show ?thesis by simp
    next
      case False
      with i eq have "CHR ''-'' # str_nat (nat (- i)) = str_nat (nat j)" by (simp add: str_int_def)
      then have "hd (str_nat (nat j)) = CHR ''-''" by (metis list.sel(1))
      with hd_pos show ?thesis by blast
    qed
  next
    case i: False
    show ?thesis
    proof (cases "j < 0")
      case True
      with i eq have "str_nat (nat i) = CHR ''-'' # str_nat (nat (- j))" by (simp add: str_int_def)
      then have "hd (str_nat (nat i)) = CHR ''-''" by (metis list.sel(1))
      with hd_pos show ?thesis by blast
    next
      case False
      with i eq have "str_nat (nat i) = str_nat (nat j)" by (simp add: str_int_def)
      then have "nat i = nat j" by (rule str_nat_inj)
      with i False show ?thesis by simp
    qed
  qed
qed

lemma split_at_separator:
  "s \<notin> set a \<Longrightarrow> s \<notin> set b \<Longrightarrow> a @ s # x = b @ s # y \<Longrightarrow> a = b \<and> x = y"
proof (induction a arbitrary: b)
  case Nil
  then show ?case by (cases b) auto
next
  case (Cons c a)
  then show ?case by (cases b) auto
qed

lemma sanitize_filename_append: "sanitize_filename (a @ b) = sanitize_filename a @ sanitize_filename b"
  by (simp add: sanitize_filename_def)

lemma sanitize_filename_safe: "(\<And>c. c \<in> set s \<Longrightarrow> storage_safe c) \<Longrightarrow> sanitize_filename s = s"
  by (simp add: sanitize_filename_def)

lemma sanitize_task_prefix: "sanitize_filename ''task_'' = ''task_''"
  by (simp add: sanitize_filename_def storage_safe_def is_path_separator_def is_control_def
      is_invalid_fs_url_def)

lemma sanitize_underscore: "sanitize_filename ''_'' = ''_''"
  by (simp add: sanitize_filename_def storage_safe_def is_path_separator_def is_control_def
      is_invalid_fs_url_def)

lemma sanitize_str_int: "sanitize_filename (str_int i) = str_int i"
  by (rule sanitize_filename_safe) (rule storage_safe_str_int)

lemma research_id_shape:
  "sanitize_filename (''task_'' @ str_int i @ ''_'' @ t) = ''task_'' @ str_int i @ ''_'' @ sanitize_filename t"
proof -
  have "sanitize_filename (''task_'' @ str_int i @ ''_'' @ t)
      = sanitize_filename ''task_'' @ sanitize_filename (str_int i) @ sanitize_filename ''_'' @ sanitize_filename t"
    by (simp only: sanitize_filename_append)
  then show ?thesis
    by (simp only: sanitize_task_prefix sanitize_str_int sanitize_underscore)
qed

lemma research_id_eq_iff:
  "sanitize_filename (''task_'' @ str_int i @ ''_'' @ t) = sanitize_filename (''task_'' @ str_int j @ ''_'' @ u)
   \<longleftrightarrow> i = j \<and> sanitize_filename t = sanitize_filename u"
proof
  assume "sanitize_filename (''task_'' @ str_int i @ ''_'' @ t) = sanitize_filename (''task_'' @ str_int j @ ''_'' @ u)"
  then have "''task_'' @ str_int i @ ''_'' @ sanitize_filename t = ''task_'' @ str_int j @ ''_'' @ sanitize_filename u"
    by (simp only: research_id_shape)
  then have "str_int i @ CHR ''_'' # sanitize_filename t = str_int j @ CHR ''_'' # sanitize_filename u"
    by simp
  then have "str_int i = str_int j \<and> sanitize_filename t = sanitize_filename u"
    by (rule split_at_separator[OF underscore_notin_str_int underscore_notin_str_int])
  then show "i = j \<and> sanitize_filename t = sanitize_filename u"
    by (auto dest: str_int_inj)
next
  assume "i = j \<and> sanitize_filename t = sanitize_filename u"
  then show "sanitize_filename (''task_'' @ str_int i @ ''_'' @ t) = sanitize_filename (''task_'' @ str_int j @ ''_'' @ u)"
    by (simp only: research_id_shape)
qed

lemma report_response_research_id:
  "field (report_response req rid info docx pdf) ''research_id'' = Some (JStr rid)"
  by (cases info) (simp add: report_response_def)

lemma write_report_research_id:
  "fst (write_report S req rid w) = Inr p \<Longrightarrow> field p ''research_id'' = Some (JStr rid)"
  by (auto simp: write_report_def report_response_research_id split: option.splits sum.splits prod.splits)

lemma generate_report_research_id:
  "fst (generate_report S now req w) = Inr p \<Longrightarrow>
   field p ''research_id'' = Some (JStr (sanitize_filename (''task_'' @ str_int (py_int now) @ ''_'' @ task req)))"
  by (auto simp: generate_report_def Let_def dest: write_report_research_id split: if_splits)

lemma sanitize_filename_storage_safe: "c \<in> set (sanitize_filename s) \<Longrightarrow> storage_safe c"
  by (simp add: sanitize_filename_def)

lemma research_id_differs_from_task:
  "sanitize_filename (''task_'' @ str_int i @ ''_'' @ t) \<noteq> t"
proof
  assume eq: "sanitize_filename (''task_'' @ str_int i @ ''_'' @ t) = t"
  have "\<And>c. c \<in> set t \<Longrightarrow> storage_safe c"
  proof -
    fix c assume "c \<in> set t"
    then have "c \<in> set (sanitize_filename (''task_'' @ str_int i @ ''_'' @ t))" by (simp only: eq)
    then show "storage_safe c" by (rule sanitize_filename_storage_safe)
  qed
  then have "sanitize_filename t = t" by (rule sanitize_filename_safe)
  with eq have "''task_'' @ str_int i @ ''_'' @ t = t" by (simp only: research_id_shape)
  then have "length (''task_'' @ str_int i @ ''_'' @ t) = length t" by (simp only:)
  then show False by simp
qed

lemma example_background_submission:
  "generate_in_background example_request"
  by (simp add: example_request_def)

lemma example_research_id:
  "sanitize_filename (''task_'' @ str_int (py_int (1001 / 10)) @ ''_'' @ task example_request) = ''task_100_foo''"
  by code_simp

lemma example_submission_first:
  "fst (generate_report example_services (1001 / 10) example_request example_world) =
     Inr (JObj [(''message'', JStr ''Your report is being generated in the background. Please check back later.''), (''research_id'', JStr ''task_100_foo'')])"
  by code_simp

lemma example_submission_later:
  "fst (generate_report example_services (2013 / 10) example_request example_world) =
     Inr (JObj [(''message'', JStr ''Your report is being generated in the background. Please check back later.''), (''research_id'', JStr ''task_201_foo'')])"
  by code_simp

section \<open>What \<^verbatim>\<open>write_report\<close> returns and leaves behind\<close>

lemma write_report_world:
  "snd (write_report S req rid w) = w\<lparr>environ := snd (configure_environment req (environ w))\<rparr>"
  by (simp add: write_report_def split: prod.splits option.splits sum.splits)

lemma write_report_invalid_tone:
  "Tone S (tone req) = None \<Longrightarrow> fst (write_report S req rid w) = Inl (KeyError (tone req))"
  by (simp add: write_report_def split: prod.splits)

lemma configure_environment_doc_path:
  "knowledge_base req = Some kb \<Longrightarrow> kb \<noteq> [] \<Longrightarrow>
   snd (configure_environment req env) ''DOC_PATH'' =
     Some (os_path_join (os_path_join (environ_get env ''VECTOR_STORE_PATH'' ''vector_store'') kb) ''docs'')"
  by (simp add: configure_environment_def Let_def environ_get_def split: option.splits)

lemma configure_environment_deep:
  "deep_research_config req = Some cfg \<Longrightarrow> cfg \<noteq> [] \<Longrightarrow>
   snd (configure_environment req env) ''DEEP_RESEARCH_DEPTH'' = Some (str_int (dict_get cfg ''max_iterations'' 2)) \<and>
   snd (configure_environment req env) ''DEEP_RESEARCH_BREADTH'' = Some (str_int (dict_get cfg ''max_search_results_per_query'' 4))"
  by (simp add: configure_environment_def Let_def split: option.splits)

lemma configure_environment_other:
  "k \<noteq> ''DOC_PATH'' \<Longrightarrow> k \<noteq> ''DEEP_RESEARCH_DEPTH'' \<Longrightarrow> k \<noteq> ''DEEP_RESEARCH_BREADTH'' \<Longrightarrow>
   snd (configure_environment req env) k = env k"
  by (simp add: configure_environment_def Let_def split: option.splits)

lemma configure_environment_none:
  "knowledge_base req = None \<or> knowledge_base req = Some [] \<Longrightarrow>
   deep_research_config req = None \<or> deep_research_config req = Some [] \<Longrightarrow>
   snd (configure_environment req env) = env"
  by (auto simp: configure_environment_def Let_def)

lemma report_response_fields:
  "field (report_response req rid (report, r) docx pdf) ''docx_path'' = Some (JStr docx)"
  "field (report_response req rid (report, r) docx pdf) ''pdf_path'' = Some (JStr pdf)"
  "report_type req \<noteq> ''multi_agents'' \<Longrightarrow>
     field (report_response req rid (report, r) docx pdf) ''report'' = Some (JStr report)"
  "report_type req \<noteq> ''multi_agents'' \<Longrightarrow>
     field (report_response req rid (report, r) docx pdf) ''research_information'' =
       Some (JObj [(''source_urls'', JList (map JStr (get_source_urls r))),
                   (''research_costs'', JNum (get_costs r)),
                   (''visited_urls'', JList (map JStr (visited_urls r))),
                   (''research_images'', JList (map JStr (get_research_images r)))])"
  "report_type req = ''multi_agents'' \<Longrightarrow>
     field (report_response req rid (report, r) docx pdf) ''report'' = Some (JStr [])"
  "report_type req = ''multi_agents'' \<Longrightarrow>
     field (report_response req rid (report, r) docx pdf) ''research_information'' = None"
  by (simp_all add: report_response_def)

lemma write_report_failure:
  assumes "fst (write_report S req rid w) = Inl e"
  shows "(Tone S (tone req) = None \<and> e = KeyError (tone req))
       \<or> (\<exists>a env. run_agent S a env = Inl e)
       \<or> (\<exists>report. write_md_to_word S report rid = Inl e \<or> write_md_to_pdf S report rid = Inl e)"
  using assms
  by (auto simp: write_report_def split: prod.splits option.splits sum.splits)

lemma write_report_success:
  assumes "fst (write_report S req rid w) = Inr p"
  shows "\<exists>t a report r docx pdf.
           Tone S (tone req) = Some t \<and> agent_task a = task req \<and> agent_tone a = t
         \<and> run_agent S a (environ (snd (write_report S req rid w))) = Inr (report, r)
         \<and> write_md_to_word S report rid = Inr docx \<and> write_md_to_pdf S report rid = Inr pdf
         \<and> p = report_response req rid (report, r) docx pdf"
proof -
  obtain vsp env2 where c: "configure_environment req (environ w) = (vsp, env2)"
    by (cases "configure_environment req (environ w)")
  have env: "environ (snd (write_report S req rid w)) = env2"
    by (simp add: write_report_world c)
  from assms c obtain t where t: "Tone S (tone req) = Some t"
    by (cases "Tone S (tone req)") (auto simp: write_report_def)
  let ?a = "\<lparr>agent_task = task req, agent_report_type = report_type req,
             agent_report_source = report_source req, agent_source_urls = [],
             agent_document_urls = [], agent_tone = t, agent_headers = headers req,
             agent_query_domains = [], agent_config_path = [],
             agent_vector_store_path = vsp\<rparr>"
  from assms c t obtain info where i: "run_agent S ?a env2 = Inr info"
    by (cases "run_agent S ?a env2") (auto simp: write_report_def)
  from assms c t i obtain docx where d: "write_md_to_word S (fst info) rid = Inr docx"
    by (cases "write_md_to_word S (fst info) rid") (auto simp: write_report_def)
  from assms c t i d obtain pdf where f: "write_md_to_pdf S (fst info) rid = Inr pdf"
    by (cases "write_md_to_pdf S (fst info) rid") (auto simp: write_report_def)
  from assms c t i d f have p: "p = report_response req rid info docx pdf"
    by (auto simp: write_report_def)
  obtain report r where info: "info = (report, r)" by (cases info)
  have "Tone S (tone req) = Some t \<and> agent_task ?a = task req \<and> agent_tone ?a = t
         \<and> run_agent S ?a (environ (snd (write_report S req rid w))) = Inr (report, r)
         \<and> write_md_to_word S report rid = Inr docx \<and> write_md_to_pdf S report rid = Inr pdf
         \<and> p = report_response req rid (report, r) docx pdf"
    using t i d f p info env by simp
  then show ?thesis by blast
qed

section \<open>Paths, directories and \<^verbatim>\<open>os.makedirs\<close>\<close>

lemma os_path_join_outputs:
  "take 1 rid \<noteq> ''/'' \<Longrightarrow> os_path_join ''outputs'' (rid @ ''.docx'') = ''outputs/'' @ rid @ ''.docx''"
  by (cases rid) (simp_all add: os_path_join_def)

lemma split_on_nonempty: "split_on s xs \<noteq> []"
  by (induction xs) (simp_all split: list.splits)

lemma split_on_no_sep: "c \<in> set (split_on s xs) \<Longrightarrow> s \<notin> set c"
proof (induction xs arbitrary: c)
  case Nil
  then show ?case by simp
next
  case (Cons x xs)
  show ?case
  proof (cases "x = s")
    case True
    with Cons show ?thesis by auto
  next
    case False
    obtain h t where ht: "split_on s xs = h # t"
      using split_on_nonempty[of s xs] by (cases "split_on s xs") auto
    with Cons.prems False have "c = x # h \<or> c \<in> set t" by auto
    moreover have "s \<notin> set h" using Cons.IH[of h] ht by simp
    moreover have "c \<in> set t \<Longrightarrow> s \<notin> set c" using Cons.IH[of c] ht by simp
    ultimately show ?thesis using False by auto
  qed
qed

lemma split_on_plain: "s \<notin> set d \<Longrightarrow> split_on s d = [d]"
  by (induction d) auto

lemma split_on_append_sep: "split_on s (a @ s # b) = split_on s a @ split_on s b"
proof (induction a)
  case Nil
  show ?case by simp
next
  case (Cons c a)
  obtain h t where ht: "split_on s a = h # t"
    using split_on_nonempty[of s a] by (cases "split_on s a") auto
  show ?case using Cons ht by simp
qed

lemma walk_append:
  "walk fs cur (xs @ ys) = (case walk fs cur xs of None \<Rightarrow> None | Some q \<Rightarrow> walk fs q ys)"
  by (induction xs arbitrary: cur) simp_all

lemma walk_name:
  "valid_name d \<Longrightarrow>
   walk fs q [d] = (if lookup fs q = Some Dir \<and> lookup fs (q @ [d]) \<noteq> None then Some (q @ [d]) else None)"
  by (auto simp: valid_name_def)

lemma walk_stay: "walk fs q [[]] = (if lookup fs q = Some Dir then Some q else None)"
  by simp

lemma os_path_join_nonempty: "b \<noteq> [] \<Longrightarrow> os_path_join a b \<noteq> []"
  by (simp add: os_path_join_def)

lemma resolve_join_child:
  assumes "base \<noteq> []" and "valid_name d"
  shows "resolve fs (os_path_join base d) =
           (case resolve fs base of
              None \<Rightarrow> None
            | Some q \<Rightarrow> if lookup fs q = Some Dir \<and> lookup fs (q @ [d]) \<noteq> None then Some (q @ [d]) else None)"
proof -
  have d: "d \<noteq> []" "CHR ''/'' \<notin> set d" using assms(2) by (simp_all add: valid_name_def)
  then have hd_d: "hd d \<noteq> CHR ''/''" by (cases d) auto
  show ?thesis
  proof (cases "last base = CHR ''/''")
    case True
    then obtain r where r: "base = r @ ''/''"
      using assms(1) by (metis append_butlast_last_id)
    have j: "os_path_join base d = r @ CHR ''/'' # d"
      using True assms(1) hd_d d by (simp add: os_path_join_def r)
    have s1: "split_on CHR ''/'' (os_path_join base d) = split_on CHR ''/'' r @ [d]"
      unfolding j by (simp add: split_on_append_sep split_on_plain d)
    have s2: "split_on CHR ''/'' base = split_on CHR ''/'' r @ [[]]"
      unfolding r by (simp add: split_on_append_sep)
    have "hd (r @ CHR ''/'' # d) = hd (r @ ''/'')" by (cases r) simp_all
    then have st: "start_dir fs (os_path_join base d) = start_dir fs base"
      by (simp only: start_dir_def j) (simp only: r)
    have ne: "os_path_join base d \<noteq> []" using os_path_join_nonempty d by blast
    have L: "resolve fs (os_path_join base d) =
               (case walk fs (start_dir fs base) (split_on CHR ''/'' r) of
                  None \<Rightarrow> None | Some q \<Rightarrow> walk fs q [d])"
      by (simp only: resolve_def ne if_False s1 st walk_append)
    have R: "resolve fs base =
               (case walk fs (start_dir fs base) (split_on CHR ''/'' r) of
                  None \<Rightarrow> None | Some q \<Rightarrow> walk fs q [[]])"
      by (simp only: resolve_def assms(1) if_False s2 walk_append)
    show ?thesis
      unfolding L R
      by (cases "walk fs (start_dir fs base) (split_on CHR ''/'' r)")
         (simp_all add: walk_name[OF assms(2)] del: walk.simps, simp)
  next
    case False
    have j: "os_path_join base d = base @ CHR ''/'' # d"
      using False assms(1) hd_d d by (simp add: os_path_join_def)
    have s1: "split_on CHR ''/'' (os_path_join base d) = split_on CHR ''/'' base @ [d]"
      unfolding j by (simp add: split_on_append_sep split_on_plain d)
    have "hd (base @ CHR ''/'' # d) = hd base" using assms(1) by (cases base) simp_all
    then have st: "start_dir fs (os_path_join base d) = start_dir fs base"
      by (simp only: start_dir_def j)
    have ne: "os_path_join base d \<noteq> []" using os_path_join_nonempty d by blast
    have L: "resolve fs (os_path_join base d) =
               (case walk fs (start_dir fs base) (split_on CHR ''/'' base) of
                  None \<Rightarrow> None | Some q \<Rightarrow> walk fs q [d])"
      by (simp only: resolve_def ne if_False s1 st walk_append)
    have R: "resolve fs base = walk fs (start_dir fs base) (split_on CHR ''/'' base)"
      by (simp only: resolve_def assms(1) if_False)
    show ?thesis
      unfolding L R
      by (cases "walk fs (start_dir fs base) (split_on CHR ''/'' base)")
         (simp_all add: walk_name[OF assms(2)] del: walk.simps)
  qed
qed

lemma isdir_join_child:
  assumes "base \<noteq> []" and "valid_name d"
  shows "os_path_isdir fs (os_path_join base d) \<longleftrightarrow>
         (\<exists>q. resolve fs base = Some q \<and> lookup fs q = Some Dir \<and> lookup fs (q @ [d]) = Some Dir)"
  unfolding os_path_isdir_def resolve_join_child[OF assms]
  by (auto split: option.splits)

lemma isdir_join_parent:
  assumes "base \<noteq> []" and "valid_name d" and "os_path_isdir fs (os_path_join base d)"
  shows "os_path_isdir fs base"
  using assms(3) unfolding isdir_join_child[OF assms(1,2)]
  by (auto simp: os_path_isdir_def)

lemma lookup_entry: "lookup fs p = Some n \<Longrightarrow> p \<noteq> [] \<Longrightarrow> (p, n) \<in> set (entries fs)"
  by (simp add: lookup_def map_of_SomeD)

lemma wf_entry:
  assumes "wf_fs fs" and "(p, n) \<in> set (entries fs)"
  shows "p \<noteq> []" and "valid_name (last p)" and "lookup fs (butlast p) = Some Dir"
    and "lookup fs p = Some n"
proof -
  from assms have a: "p \<noteq> [] \<and> valid_name (last p) \<and> lookup fs (butlast p) = Some Dir"
    by (auto simp: wf_fs_def list_all_iff)
  then show "p \<noteq> []" and "valid_name (last p)" and "lookup fs (butlast p) = Some Dir"
    by simp_all
  from assms have "map_of (entries fs) p = Some n"
    by (simp add: wf_fs_def)
  with a show "lookup fs p = Some n" by (simp add: lookup_def)
qed

lemma wf_parent:
  assumes "wf_fs fs" and "lookup fs cur = Some Dir"
  shows "lookup fs (butlast cur) = Some Dir"
proof (cases "cur = []")
  case True
  then show ?thesis by (simp add: lookup_def)
next
  case False
  with assms(2) have "(cur, Dir) \<in> set (entries fs)" by (simp add: lookup_entry)
  with assms(1) show ?thesis by (rule wf_entry(3))
qed



lemma children_distinct:
  assumes "wf_fs fs"
  shows "distinct (children fs q)"
proof -
  let ?xs = "filter (\<lambda>(r, n). r \<noteq> [] \<and> butlast r = q) (entries fs)"
  have dk: "distinct (map fst (entries fs))" using assms by (simp add: wf_fs_def)
  then have "distinct (entries fs)" by (rule distinct_map[THEN iffD1, THEN conjunct1])
  then have d: "distinct ?xs" by simp
  have "inj_on (last \<circ> fst) (set ?xs)"
  proof (rule inj_onI)
    fix x y assume x: "x \<in> set ?xs" and y: "y \<in> set ?xs" and e: "(last \<circ> fst) x = (last \<circ> fst) y"
    obtain r1 n1 where x1: "x = (r1, n1)" by (cases x)
    obtain r2 n2 where y1: "y = (r2, n2)" by (cases y)
    from x x1 have a: "r1 \<noteq> []" "butlast r1 = q" "(r1, n1) \<in> set (entries fs)" by auto
    from y y1 have b: "r2 \<noteq> []" "butlast r2 = q" "(r2, n2) \<in> set (entries fs)" by auto
    from e x1 y1 have l: "last r1 = last r2" by simp
    have "r1 = butlast r1 @ [last r1]" using a(1) by simp
    also have "\<dots> = butlast r2 @ [last r2]" using a(2) b(2) l by simp
    also have "\<dots> = r2" using b(1) by simp
    finally have r: "r1 = r2" .
    with a(3) b(3) dk have "n1 = n2" by (metis eq_key_imp_eq_value)
    with r x1 y1 show "x = y" by simp
  qed
  with d show ?thesis unfolding children_def by (simp add: distinct_map)
qed

lemma children_set:
  assumes "wf_fs fs"
  shows "set (children fs q) = {d. lookup fs (q @ [d]) \<noteq> None}"
proof (intro set_eqI iffI)
  fix d assume "d \<in> set (children fs q)"
  then obtain r n where r: "(r, n) \<in> set (entries fs)" "r \<noteq> []" "butlast r = q" "d = last r"
    by (auto simp: children_def)
  then have "r = q @ [d]" by (metis append_butlast_last_id)
  moreover have "lookup fs r = Some n" using assms r(1) by (rule wf_entry(4))
  ultimately show "d \<in> {d. lookup fs (q @ [d]) \<noteq> None}" by simp
next
  fix d assume "d \<in> {d. lookup fs (q @ [d]) \<noteq> None}"
  then obtain n where "lookup fs (q @ [d]) = Some n" by auto
  then have "(q @ [d], n) \<in> set (entries fs)" by (rule lookup_entry) simp
  then have "(q @ [d], n) \<in> set (filter (\<lambda>(r, n). r \<noteq> [] \<and> butlast r = q) (entries fs))"
    by simp
  then have "(last \<circ> fst) (q @ [d], n) \<in> (last \<circ> fst) ` set (filter (\<lambda>(r, n). r \<noteq> [] \<and> butlast r = q) (entries fs))"
    by (rule imageI)
  then show "d \<in> set (children fs q)" by (simp add: children_def)
qed

lemma children_valid:
  assumes "wf_fs fs" and "d \<in> set (children fs q)"
  shows "valid_name d"
proof -
  from assms(2) obtain r n where r: "(r, n) \<in> set (entries fs)" "d = last r"
    by (auto simp: children_def)
  from wf_entry(2)[OF assms(1) r(1)] r(2) show ?thesis by simp
qed

lemma resolve_nonempty: "resolve fs p = Some q \<Longrightarrow> p \<noteq> []"
  by (auto simp: resolve_def)

lemma listing_of_directory:
  assumes wf: "wf_fs fs" and q: "resolve fs base = Some q" and dq: "lookup fs q = Some Dir"
  shows "distinct (filter (\<lambda>d. os_path_isdir fs (os_path_join base d)) (children fs q))"
    and "set (filter (\<lambda>d. os_path_isdir fs (os_path_join base d)) (children fs q)) =
         {d. lookup fs (q @ [d]) = Some Dir}"
proof -
  show "distinct (filter (\<lambda>d. os_path_isdir fs (os_path_join base d)) (children fs q))"
    using children_distinct[OF wf] by simp
  have ne: "base \<noteq> []" using q by (rule resolve_nonempty)
  show "set (filter (\<lambda>d. os_path_isdir fs (os_path_join base d)) (children fs q)) =
         {d. lookup fs (q @ [d]) = Some Dir}"
  proof (intro set_eqI iffI)
    fix d assume "d \<in> set (filter (\<lambda>d. os_path_isdir fs (os_path_join base d)) (children fs q))"
    then have c: "d \<in> set (children fs q)" and i: "os_path_isdir fs (os_path_join base d)" by simp_all
    have v: "valid_name d" using wf c by (rule children_valid)
    from i q show "d \<in> {d. lookup fs (q @ [d]) = Some Dir}"
      unfolding isdir_join_child[OF ne v] by simp
  next
    fix d assume "d \<in> {d. lookup fs (q @ [d]) = Some Dir}"
    then have l: "lookup fs (q @ [d]) = Some Dir" by simp
    then have c: "d \<in> set (children fs q)" unfolding children_set[OF wf] by simp
    have v: "valid_name d" using wf c by (rule children_valid)
    have "os_path_isdir fs (os_path_join base d)"
      unfolding isdir_join_child[OF ne v] using q dq l by simp
    with c show "d \<in> set (filter (\<lambda>d. os_path_isdir fs (os_path_join base d)) (children fs q))"
      by simp
  qed
qed

lemma get_knowledge_bases_listing:
  assumes wf: "wf_fs (fsys w)"
  shows "\<exists>ds. get_knowledge_bases w = Inr (JObj [(''knowledge_bases'', JList (map JStr ds))])
            \<and> distinct ds
            \<and> set ds = {d. \<exists>q. resolve (fsys w) (environ_get (environ w) ''VECTOR_STORE_PATH'' ''vector_store'') = Some q
                            \<and> lookup (fsys w) q = Some Dir \<and> lookup (fsys w) (q @ [d]) = Some Dir}
            \<and> (\<not> os_path_isdir (fsys w) (environ_get (environ w) ''VECTOR_STORE_PATH'' ''vector_store'') \<longrightarrow> ds = [])"
proof -
  let ?base = "environ_get (environ w) ''VECTOR_STORE_PATH'' ''vector_store''"
  show ?thesis
  proof (cases "os_path_isdir (fsys w) ?base")
    case False
    then have "get_knowledge_bases w = Inr (JObj [(''knowledge_bases'', JList (map JStr []))])"
      by (simp add: get_knowledge_bases_def)
    moreover have "{d. \<exists>q. resolve (fsys w) ?base = Some q
                            \<and> lookup (fsys w) q = Some Dir \<and> lookup (fsys w) (q @ [d]) = Some Dir} = set []"
      using False by (auto simp: os_path_isdir_def)
    ultimately show ?thesis by (intro exI[of _ "[]"]) simp
  next
    case True
    then obtain q where q: "resolve (fsys w) ?base = Some q" and dq: "lookup (fsys w) q = Some Dir"
      by (auto simp: os_path_isdir_def split: option.splits)
    let ?ds = "filter (\<lambda>d. os_path_isdir (fsys w) (os_path_join ?base d)) (children (fsys w) q)"
    have "os_listdir (fsys w) ?base = Inr (children (fsys w) q)"
      using q dq by (simp add: os_listdir_def)
    with True have "get_knowledge_bases w = Inr (JObj [(''knowledge_bases'', JList (map JStr ?ds))])"
      by (simp add: get_knowledge_bases_def Let_def)
    moreover note listing_of_directory[OF wf q dq]
    moreover have "{d. \<exists>q'. resolve (fsys w) ?base = Some q'
                            \<and> lookup (fsys w) q' = Some Dir \<and> lookup (fsys w) (q' @ [d]) = Some Dir}
                 = {d. lookup (fsys w) (q @ [d]) = Some Dir}"
      using q dq by auto
    ultimately show ?thesis using True by (intro exI[of _ ?ds]) simp
  qed
qed

lemma lookup_add_entry_old:
  "lookup fs p = Some n \<Longrightarrow> lookup (fs\<lparr>entries := entries fs @ [(k, v)]\<rparr>) p = Some n"
  by (cases "p = []") (simp_all add: lookup_def map_add_def)

lemma lookup_add_entry_new:
  "lookup fs k = None \<Longrightarrow> lookup (fs\<lparr>entries := entries fs @ [(k, v)]\<rparr>) k = Some v"
  by (cases "k = []") (simp_all add: lookup_def map_add_def)

lemma lookup_add_entry_cases:
  "lookup (fs\<lparr>entries := entries fs @ [(k, v)]\<rparr>) p = Some n \<Longrightarrow> lookup fs p = Some n \<or> (p = k \<and> n = v)"
  by (cases "p = []") (auto simp add: lookup_def map_add_def split: option.splits if_splits)

lemma make_walk_preserves:
  "make_walk name fs cur cs = Inr fs' \<Longrightarrow>
   cwd fs' = cwd fs \<and> (\<forall>p n. lookup fs p = Some n \<longrightarrow> lookup fs' p = Some n)"
proof (induction cs arbitrary: fs cur)
  case Nil
  then show ?case by simp
next
  case (Cons c cs)
  show ?case
  proof (cases "c = [] \<or> c = ''.''")
    case True
    with Cons.prems have "make_walk name fs cur cs = Inr fs'" by auto
    then show ?thesis by (rule Cons.IH)
  next
    case n1: False
    show ?thesis
    proof (cases "c = ''..''")
      case True
      with n1 Cons.prems have "make_walk name fs (butlast cur) cs = Inr fs'" by simp
      then show ?thesis by (rule Cons.IH)
    next
      case n2: False
      show ?thesis
      proof (cases "lookup fs (cur @ [c])")
        case None
        let ?fs1 = "fs\<lparr>entries := entries fs @ [(cur @ [c], Dir)]\<rparr>"
        from None n1 n2 Cons.prems have "make_walk name ?fs1 (cur @ [c]) cs = Inr fs'" by simp
        then have "cwd fs' = cwd ?fs1 \<and> (\<forall>p n. lookup ?fs1 p = Some n \<longrightarrow> lookup fs' p = Some n)"
          by (rule Cons.IH)
        then show ?thesis using lookup_add_entry_old[of fs] by simp
      next
        case (Some nd)
        show ?thesis
        proof (cases nd)
          case Dir
          with Some n1 n2 Cons.prems have "make_walk name fs (cur @ [c]) cs = Inr fs'" by simp
          then show ?thesis by (rule Cons.IH)
        next
          case (File x)
          with Some n1 n2 Cons.prems show ?thesis by simp
        qed
      qed
    qed
  qed
qed

lemma wf_add_directory:
  assumes wf: "wf_fs fs" and cur: "lookup fs cur = Some Dir" and new: "lookup fs (cur @ [c]) = None"
    and c: "valid_name c"
  shows "wf_fs (fs\<lparr>entries := entries fs @ [(cur @ [c], Dir)]\<rparr>)"
proof -
  let ?fs1 = "fs\<lparr>entries := entries fs @ [(cur @ [c], Dir)]\<rparr>"
  from new have "cur @ [c] \<notin> fst ` set (entries fs)"
    by (simp add: lookup_def map_of_eq_None_iff)
  with wf have d: "distinct (map fst (entries ?fs1))" by (simp add: wf_fs_def)
  have old: "\<And>p n. lookup fs p = Some n \<Longrightarrow> lookup ?fs1 p = Some n"
    by (rule lookup_add_entry_old)
  have "list_all (\<lambda>(p, n). p \<noteq> [] \<and> valid_name (last p) \<and> lookup ?fs1 (butlast p) = Some Dir) (entries fs)"
    using wf old unfolding wf_fs_def list_all_iff by auto
  moreover have "lookup ?fs1 (butlast (cur @ [c])) = Some Dir" using old[OF cur] by simp
  ultimately have l: "list_all (\<lambda>(p, n). p \<noteq> [] \<and> valid_name (last p) \<and> lookup ?fs1 (butlast p) = Some Dir) (entries ?fs1)"
    using c by simp
  have "lookup ?fs1 (cwd ?fs1) = Some Dir" using wf old by (simp add: wf_fs_def)
  with d l show ?thesis unfolding wf_fs_def by blast
qed

lemma make_walk_creates:
  assumes "wf_fs fs" and "lookup fs cur = Some Dir" and "\<forall>c\<in>set cs. CHR ''/'' \<notin> set c"
    and "make_walk name fs cur cs = Inr fs'"
  shows "wf_fs fs' \<and> (\<exists>q. walk fs' cur cs = Some q \<and> lookup fs' q = Some Dir)"
  using assms
proof (induction cs arbitrary: fs cur)
  case Nil
  then show ?case by simp
next
  case (Cons c cs)
  note pres = make_walk_preserves[OF Cons.prems(4)]
  have cur': "lookup fs' cur = Some Dir" using pres Cons.prems(2) by blast
  have rest: "\<forall>c\<in>set cs. CHR ''/'' \<notin> set c" using Cons.prems(3) by simp
  show ?case
  proof (cases "c = [] \<or> c = ''.''")
    case True
    with Cons.prems(4) have m: "make_walk name fs cur cs = Inr fs'" by auto
    from Cons.IH[OF Cons.prems(1) Cons.prems(2) rest m] show ?thesis
      using True cur' by auto
  next
    case n1: False
    show ?thesis
    proof (cases "c = ''..''")
      case True
      with n1 Cons.prems(4) have m: "make_walk name fs (butlast cur) cs = Inr fs'" by simp
      have p: "lookup fs (butlast cur) = Some Dir"
        using Cons.prems(1) Cons.prems(2) by (rule wf_parent)
      from Cons.IH[OF Cons.prems(1) p rest m] show ?thesis
        using True cur' by simp
    next
      case n2: False
      have v: "valid_name c" using n1 n2 Cons.prems(3) by (simp add: valid_name_def)
      show ?thesis
      proof (cases "lookup fs (cur @ [c])")
        case None
        let ?fs1 = "fs\<lparr>entries := entries fs @ [(cur @ [c], Dir)]\<rparr>"
        from None n1 n2 Cons.prems(4) have m: "make_walk name ?fs1 (cur @ [c]) cs = Inr fs'" by simp
        have wf1: "wf_fs ?fs1" using Cons.prems(1) Cons.prems(2) None v by (rule wf_add_directory)
        have new: "lookup ?fs1 (cur @ [c]) = Some Dir" using None by (rule lookup_add_entry_new)
        from Cons.IH[OF wf1 new rest m] have r: "wf_fs fs'"
          "\<exists>q. walk fs' (cur @ [c]) cs = Some q \<and> lookup fs' q = Some Dir" by simp_all
        have "lookup fs' (cur @ [c]) = Some Dir"
          using make_walk_preserves[OF m] new by blast
        with r cur' n1 n2 show ?thesis by simp
      next
        case (Some nd)
        show ?thesis
        proof (cases nd)
          case Dir
          with Some n1 n2 Cons.prems(4) have m: "make_walk name fs (cur @ [c]) cs = Inr fs'" by simp
          have d: "lookup fs (cur @ [c]) = Some Dir" using Some Dir by simp
          from Cons.IH[OF Cons.prems(1) d rest m] have r: "wf_fs fs'"
            "\<exists>q. walk fs' (cur @ [c]) cs = Some q \<and> lookup fs' q = Some Dir" by simp_all
          have "lookup fs' (cur @ [c]) = Some Dir" using pres d by blast
          with r cur' n1 n2 show ?thesis by simp
        next
          case (File x)
          with Some n1 n2 Cons.prems(4) show ?thesis by simp
        qed
      qed
    qed
  qed
qed

lemma make_walk_succeeds:
  assumes "list_all (\<lambda>q. \<not> is_regular (lookup fs q)) (visited cur cs)"
  shows "\<exists>fs'. make_walk name fs cur cs = Inr fs'"
  using assms
proof (induction cs arbitrary: fs cur)
  case Nil
  then show ?case by simp
next
  case (Cons c cs)
  from Cons.prems have here: "\<not> is_regular (lookup fs (step cur c))"
    and rest: "list_all (\<lambda>q. \<not> is_regular (lookup fs q)) (visited (step cur c) cs)"
    by simp_all
  show ?case
  proof (cases "c = [] \<or> c = ''.''")
    case True
    then have s: "step cur c = cur" by (auto simp: step_def)
    from Cons.IH[OF rest[unfolded s]] show ?thesis using True by auto
  next
    case n1: False
    show ?thesis
    proof (cases "c = ''..''")
      case True
      then have s: "step cur c = butlast cur" by (simp add: step_def)
      from Cons.IH[OF rest[unfolded s]] show ?thesis using True n1 by simp
    next
      case n2: False
      then have s: "step cur c = cur @ [c]" using n1 by (simp add: step_def)
      show ?thesis
      proof (cases "lookup fs (cur @ [c])")
        case None
        let ?fs1 = "fs\<lparr>entries := entries fs @ [(cur @ [c], Dir)]\<rparr>"
        have "list_all (\<lambda>q. \<not> is_regular (lookup ?fs1 q)) (visited (cur @ [c]) cs)"
          unfolding list_all_iff
        proof
          fix q assume q: "q \<in> set (visited (cur @ [c]) cs)"
          with rest s have a: "\<not> is_regular (lookup fs q)" by (simp add: list_all_iff)
          show "\<not> is_regular (lookup ?fs1 q)"
          proof
            assume "is_regular (lookup ?fs1 q)"
            then obtain x where "lookup ?fs1 q = Some (File x)"
              by (auto simp: is_regular_def split: option.splits node.splits)
            then have "lookup fs q = Some (File x)"
              using lookup_add_entry_cases[of fs "cur @ [c]" Dir q "File x"] by simp
            with a show False by (simp add: is_regular_def)
          qed
        qed
        from Cons.IH[OF this] show ?thesis using None n1 n2 by simp
      next
        case (Some nd)
        show ?thesis
        proof (cases nd)
          case Dir
          from Cons.IH[OF rest[unfolded s]] show ?thesis using Some Dir n1 n2 by simp
        next
          case (File x)
          with Some here s show ?thesis by (simp add: is_regular_def)
        qed
      qed
    qed
  qed
qed

lemma lookup_root: "lookup fs [] = Some Dir"
  by (simp add: lookup_def)

lemma start_dir_is_directory: "wf_fs fs \<Longrightarrow> lookup fs (start_dir fs p) = Some Dir"
  by (cases "hd p = CHR ''/''") (simp_all add: start_dir_def wf_fs_def lookup_root)

lemma os_makedirs_creates:
  assumes wf: "wf_fs fs" and ne: "p \<noteq> []" and un: "unobstructed fs p"
  shows "\<exists>fs'. os_makedirs fs p = Inr fs' \<and> wf_fs fs' \<and> cwd fs' = cwd fs
           \<and> os_path_isdir fs' p \<and> (\<forall>q n. lookup fs q = Some n \<longrightarrow> lookup fs' q = Some n)"
proof -
  from un obtain fs' where m: "make_walk p fs (start_dir fs p) (split_on CHR ''/'' p) = Inr fs'"
    unfolding unobstructed_def using make_walk_succeeds by blast
  have sep: "\<forall>c\<in>set (split_on CHR ''/'' p). CHR ''/'' \<notin> set c"
    using split_on_no_sep by blast
  note c = make_walk_creates[OF wf start_dir_is_directory[OF wf] sep m]
  note pr = make_walk_preserves[OF m]
  have st: "start_dir fs' p = start_dir fs p" using pr by (simp add: start_dir_def)
  have "os_path_isdir fs' p" using c ne by (auto simp: os_path_isdir_def resolve_def st)
  moreover have "os_makedirs fs p = Inr fs'" using m ne by (simp add: os_makedirs_def)
  ultimately show ?thesis using c pr by blast
qed

lemma os_makedirs_result:
  assumes wf: "wf_fs fs" and m: "os_makedirs fs p = Inr fs'"
  shows "wf_fs fs' \<and> cwd fs' = cwd fs \<and> os_path_isdir fs' p
           \<and> (\<forall>q n. lookup fs q = Some n \<longrightarrow> lookup fs' q = Some n)"
proof -
  from m have ne: "p \<noteq> []" by (auto simp: os_makedirs_def split: if_splits)
  with m have mw: "make_walk p fs (start_dir fs p) (split_on CHR ''/'' p) = Inr fs'"
    by (simp add: os_makedirs_def)
  have sep: "\<forall>c\<in>set (split_on CHR ''/'' p). CHR ''/'' \<notin> set c"
    using split_on_no_sep by blast
  note c = make_walk_creates[OF wf start_dir_is_directory[OF wf] sep mw]
  note pr = make_walk_preserves[OF mw]
  have st: "start_dir fs' p = start_dir fs p" using pr by (simp add: start_dir_def)
  have "os_path_isdir fs' p" using c ne by (auto simp: os_path_isdir_def resolve_def st)
  then show ?thesis using c pr by blast
qed

lemma walk_dir_start: "walk fs p cs = Some q \<Longrightarrow> lookup fs q = Some Dir \<Longrightarrow> lookup fs p = Some Dir"
  by (cases cs) (auto split: if_splits)

lemma make_walk_existing:
  "walk fs cur cs = Some q \<Longrightarrow> lookup fs q = Some Dir \<Longrightarrow> make_walk name fs cur cs = Inr fs"
proof (induction cs arbitrary: cur)
  case Nil
  then show ?case by simp
next
  case (Cons c cs)
  show ?case
  proof (cases "c = [] \<or> c = ''.''")
    case True
    with Cons.prems have "walk fs cur cs = Some q" by (auto split: if_splits)
    from Cons.IH[OF this Cons.prems(2)] True show ?thesis by auto
  next
    case n1: False
    show ?thesis
    proof (cases "c = ''..''")
      case True
      with n1 Cons.prems have "walk fs (butlast cur) cs = Some q" by (auto split: if_splits)
      from Cons.IH[OF this Cons.prems(2)] True n1 show ?thesis by simp
    next
      case n2: False
      with n1 Cons.prems have w: "walk fs (cur @ [c]) cs = Some q" by (auto split: if_splits)
      have "lookup fs (cur @ [c]) = Some Dir" using w Cons.prems(2) by (rule walk_dir_start)
      with Cons.IH[OF w Cons.prems(2)] n1 n2 show ?thesis by simp
    qed
  qed
qed

lemma os_makedirs_existing: "os_path_isdir fs p \<Longrightarrow> os_makedirs fs p = Inr fs"
  by (auto simp: os_path_isdir_def resolve_def os_makedirs_def make_walk_existing
      split: option.splits if_splits)

lemma walk_from_directory:
  "cs \<noteq> [] \<Longrightarrow> walk fs p cs = Some q \<Longrightarrow> lookup fs p = Some Dir"
  by (cases cs) (auto split: if_splits)

lemma isdir_prefix:
  assumes "os_path_isdir fs (x @ CHR ''/'' # y)" and "x \<noteq> []"
  shows "os_path_isdir fs x"
proof -
  have st: "start_dir fs (x @ CHR ''/'' # y) = start_dir fs x"
    using assms(2) by (cases x) (simp_all add: start_dir_def)
  from assms(1) obtain q where
    "walk fs (start_dir fs x) (split_on CHR ''/'' x @ split_on CHR ''/'' y) = Some q"
    by (auto simp: os_path_isdir_def resolve_def st split_on_append_sep split: option.splits)
  then obtain q' where a: "walk fs (start_dir fs x) (split_on CHR ''/'' x) = Some q'"
    and b: "walk fs q' (split_on CHR ''/'' y) = Some q"
    by (auto simp: walk_append split: option.splits)
  have "lookup fs q' = Some Dir"
    using split_on_nonempty b by (rule walk_from_directory)
  with a assms(2) show ?thesis by (simp add: os_path_isdir_def resolve_def)
qed

text \<open>The server does not start on an empty root: \<^verbatim>\<open>os.makedirs('')\<close> raises.\<close>

lemma startup_event_needs_root:
  "fst (startup_event w) = Inr u \<Longrightarrow> environ_get (environ w) ''VECTOR_STORE_PATH'' ''vector_store'' \<noteq> []"
  by (auto simp: startup_event_def os_makedirs_def Let_def split: sum.splits)

lemma valid_name_docs: "valid_name ''docs''"
  by (simp add: valid_name_def)

lemma walk_mono:
  assumes "\<And>p. lookup fs p = Some Dir \<Longrightarrow> lookup fs' p = Some Dir"
  shows "walk fs cur cs = Some q \<Longrightarrow> lookup fs q = Some Dir \<Longrightarrow> walk fs' cur cs = Some q"
proof (induction cs arbitrary: cur)
  case Nil
  then show ?case by simp
next
  case (Cons c cs)
  from Cons.prems have cur: "lookup fs cur = Some Dir" by (rule walk_dir_start)
  then have cur': "lookup fs' cur = Some Dir" by (rule assms)
  show ?case
  proof (cases "c = [] \<or> c = ''.''")
    case True
    with Cons.prems have "walk fs cur cs = Some q" by (auto split: if_splits)
    from Cons.IH[OF this Cons.prems(2)] True cur' show ?thesis by auto
  next
    case n1: False
    show ?thesis
    proof (cases "c = ''..''")
      case True
      with n1 Cons.prems have "walk fs (butlast cur) cs = Some q" by (auto split: if_splits)
      from Cons.IH[OF this Cons.prems(2)] True n1 cur' show ?thesis by simp
    next
      case n2: False
      with n1 Cons.prems have w: "walk fs (cur @ [c]) cs = Some q" by (auto split: if_splits)
      have "lookup fs (cur @ [c]) = Some Dir" using w Cons.prems(2) by (rule walk_dir_start)
      then have "lookup fs' (cur @ [c]) = Some Dir" by (rule assms)
      with Cons.IH[OF w Cons.prems(2)] n1 n2 cur' show ?thesis by simp
    qed
  qed
qed

lemma keeps_directories_lookup:
  assumes "keeps_directories fs fs'" and "lookup fs p = Some Dir"
  shows "lookup fs' p = Some Dir"
proof (cases "p = []")
  case True
  then show ?thesis by (simp add: lookup_root)
next
  case False
  with assms(2) have "(p, Dir) \<in> set (entries fs)" by (simp add: lookup_entry)
  with assms(1) show ?thesis by (auto simp: keeps_directories_def list_all_iff)
qed

lemma keeps_directories_resolve:
  assumes k: "keeps_directories fs fs'" and r: "resolve fs p = Some q" and d: "lookup fs q = Some Dir"
  shows "resolve fs' p = Some q"
proof -
  from r have ne: "p \<noteq> []" by (rule resolve_nonempty)
  from k have st: "start_dir fs' p = start_dir fs p" by (simp add: keeps_directories_def start_dir_def)
  from r ne have w: "walk fs (start_dir fs p) (split_on CHR ''/'' p) = Some q" by (simp add: resolve_def)
  have "walk fs' (start_dir fs p) (split_on CHR ''/'' p) = Some q"
    using keeps_directories_lookup[OF k] w d by (rule walk_mono)
  with ne st show ?thesis by (simp add: resolve_def)
qed

lemma count_list_distinct: "distinct xs \<Longrightarrow> x \<in> set xs \<Longrightarrow> count_list xs x = 1"
  by (induction xs) (auto simp: count_list_0_iff)

lemma listing_after_upload:
  assumes wf: "wf_fs (fsys w)" and v: "valid_name kb"
    and ne: "environ_get (environ w) ''VECTOR_STORE_PATH'' ''vector_store'' \<noteq> []"
    and up: "upload_file S file kb w = (Inr r, w')"
    and keep: "case os_makedirs (fsys w)
                      (os_path_join (os_path_join (environ_get (environ w) ''VECTOR_STORE_PATH'' ''vector_store'') kb) ''docs'') of
                 Inl e \<Rightarrow> False
               | Inr fs1 \<Rightarrow> keeps_directories fs1 (fsys w')"
  shows "\<exists>ds. get_knowledge_bases w' = Inr (JObj [(''knowledge_bases'', JList (map JStr ds))])
             \<and> count_list ds kb = 1"
proof -
  let ?base = "environ_get (environ w) ''VECTOR_STORE_PATH'' ''vector_store''"
  let ?kb = "os_path_join ?base kb"
  let ?doc = "os_path_join ?kb ''docs''"
  from keep obtain fs1 where m: "os_makedirs (fsys w) ?doc = Inr fs1"
    and k: "keeps_directories fs1 (fsys w')"
    by (cases "os_makedirs (fsys w) ?doc") auto
  have kne: "kb \<noteq> []" using v by (simp add: valid_name_def)
  from up kne m have env: "environ w' = environ w"
    by (auto simp: upload_file_def Let_def split: prod.splits)
  note res = os_makedirs_result[OF wf m]
  have kb: "?kb \<noteq> []" using kne by (rule os_path_join_nonempty)
  have "os_path_isdir fs1 ?kb" using kb valid_name_docs res by (blast intro: isdir_join_parent)
  then obtain q where q: "resolve fs1 ?base = Some q" "lookup fs1 q = Some Dir"
    "lookup fs1 (q @ [kb]) = Some Dir"
    unfolding isdir_join_child[OF ne v] by blast
  have q': "resolve (fsys w') ?base = Some q" using k q(1) q(2) by (rule keeps_directories_resolve)
  have d': "lookup (fsys w') q = Some Dir" "lookup (fsys w') (q @ [kb]) = Some Dir"
    using k q by (auto intro: keeps_directories_lookup)
  have wf': "wf_fs (fsys w')" using k by (simp add: keeps_directories_def)
  from get_knowledge_bases_listing[OF wf'] obtain ds where
    ds: "get_knowledge_bases w' = Inr (JObj [(''knowledge_bases'', JList (map JStr ds))])"
        "distinct ds"
        "set ds = {d. \<exists>q. resolve (fsys w') (environ_get (environ w') ''VECTOR_STORE_PATH'' ''vector_store'') = Some q
                            \<and> lookup (fsys w') q = Some Dir \<and> lookup (fsys w') (q @ [d]) = Some Dir}"
    by blast
  have "kb \<in> set ds" unfolding ds(3) env using q' d' by blast
  with ds(2) have "count_list ds kb = 1" by (rule count_list_distinct)
  with ds(1) show ?thesis by blast
qed

section \<open>Submissions\<close>

text \<open>
  C1. Two submissions that are accepted (the call returns a payload) carry the same
  job identity exactly when their clock readings fall into the same whole second
  and their task texts agree once sanitised. So the same task text submitted in two
  different seconds gets two identities, and submitted twice within one second it
  gets one.
\<close>

theorem job_identity_equal_iff:
  assumes "fst (generate_report S now1 req1 w1) = Inr p1"
    and "fst (generate_report S now2 req2 w2) = Inr p2"
  shows "field p1 ''research_id'' = field p2 ''research_id'' \<longleftrightarrow>
         py_int now1 = py_int now2 \<and> sanitize_filename (task req1) = sanitize_filename (task req2)"
  using generate_report_research_id[OF assms(1)] generate_report_research_id[OF assms(2)]
  by (simp only: research_id_eq_iff option.inject json.inject)

theorem job_identity_equal_iff_witness:
  "fst (generate_report example_services (1001 / 10) example_request example_world) =
     Inr (JObj [(''message'', JStr ''Your report is being generated in the background. Please check back later.''), (''research_id'', JStr ''task_100_foo'')])
   \<and> fst (generate_report example_services (2013 / 10) example_request example_world) =
     Inr (JObj [(''message'', JStr ''Your report is being generated in the background. Please check back later.''), (''research_id'', JStr ''task_201_foo'')])
   \<and> ((field (JObj [(''message'', JStr ''Your report is being generated in the background. Please check back later.''), (''research_id'', JStr ''task_100_foo'')]) ''research_id'' =
        field (JObj [(''message'', JStr ''Your report is being generated in the background. Please check back later.''), (''research_id'', JStr ''task_201_foo'')]) ''research_id'') =
       (py_int (1001 / 10) = py_int (2013 / 10) \<and>
        sanitize_filename (task example_request) = sanitize_filename (task example_request)))"
  by (intro conjI, rule example_submission_first, rule example_submission_later,
      rule job_identity_equal_iff[OF example_submission_first example_submission_later])

text \<open>
  C1 as written fails: the task \<^verbatim>\<open>foo\<close> submitted at 100.1 s and again,
  after the first submission was queued, at 100.7 s gets the identity
  \<^verbatim>\<open>task_100_foo\<close> both times.
\<close>

theorem job_identity_collision:
  "fst (generate_report example_services (1001 / 10) example_request example_world) =
     Inr (JObj [(''message'', JStr ''Your report is being generated in the background. Please check back later.''), (''research_id'', JStr ''task_100_foo'')])
   \<and> fst (generate_report example_services (1007 / 10) example_request
         (snd (generate_report example_services (1001 / 10) example_request example_world))) =
     Inr (JObj [(''message'', JStr ''Your report is being generated in the background. Please check back later.''), (''research_id'', JStr ''task_100_foo'')])"
  by code_simp

text \<open>
  C3. In background mode \<^verbatim>\<open>generate_report\<close> returns the acknowledgement with
  the job identity, and all it has done by then is to queue the task: the result
  and the state do not depend on the collaborators, so the computation has not run.
\<close>

theorem generate_report_background:
  assumes "generate_in_background req"
  shows "generate_report S now req w =
           (Inr (JObj [(''message'', JStr ''Your report is being generated in the background. Please check back later.''),
                       (''research_id'', JStr (sanitize_filename (''task_'' @ str_int (py_int now) @ ''_'' @ task req)))]),
            w\<lparr>background_tasks := background_tasks w @
                 [(req, sanitize_filename (''task_'' @ str_int (py_int now) @ ''_'' @ task req))]\<rparr>)
         \<and> (\<forall>S'. generate_report S' now req w = generate_report S now req w)"
  using assms by (simp add: generate_report_def Let_def)

theorem generate_report_background_witness:
  "generate_in_background example_request
   \<and> fst (generate_report example_services (1001 / 10) example_request example_world) =
       Inr (JObj [(''message'', JStr ''Your report is being generated in the background. Please check back later.''), (''research_id'', JStr ''task_100_foo'')])
   \<and> background_tasks (snd (generate_report example_services (1001 / 10) example_request example_world)) =
       [(example_request, ''task_100_foo'')]"
proof -
  note r = generate_report_background[OF example_background_submission,
      of example_services "1001 / 10" example_world, THEN conjunct1]
  have "fst (generate_report example_services (1001 / 10) example_request example_world) =
       Inr (JObj [(''message'', JStr ''Your report is being generated in the background. Please check back later.''), (''research_id'', JStr ''task_100_foo'')])"
    by (simp only: r fst_conv example_research_id)
  moreover have "snd (generate_report example_services (1001 / 10) example_request example_world) =
       example_world\<lparr>background_tasks := background_tasks example_world @ [(example_request, ''task_100_foo'')]\<rparr>"
    by (simp only: r snd_conv example_research_id)
  then have "background_tasks (snd (generate_report example_services (1001 / 10) example_request example_world)) =
       background_tasks example_world @ [(example_request, ''task_100_foo'')]"
    by simp
  moreover have "background_tasks example_world = []"
    by (simp add: example_world_def)
  ultimately show ?thesis
    using example_background_submission by simp
qed

text \<open>
  C6. The identity of an accepted submission is the sanitised string made of
  \<^verbatim>\<open>task_\<close>, the whole seconds of the clock and the task text; it holds no path
  separator, no control character and no character invalid in a file name or URL,
  and it is never the task text itself.
\<close>

theorem job_identity_sanitized:
  assumes "fst (generate_report S now req w) = Inr p"
  shows "\<exists>rid. field p ''research_id'' = Some (JStr rid)
           \<and> rid = sanitize_filename (''task_'' @ str_int (py_int now) @ ''_'' @ task req)
           \<and> list_all (\<lambda>c. \<not> is_path_separator c \<and> \<not> is_control c \<and> \<not> is_invalid_fs_url c) rid
           \<and> rid \<noteq> task req"
proof -
  let ?rid = "sanitize_filename (''task_'' @ str_int (py_int now) @ ''_'' @ task req)"
  have "field p ''research_id'' = Some (JStr ?rid)"
    by (rule generate_report_research_id[OF assms])
  moreover have "list_all (\<lambda>c. \<not> is_path_separator c \<and> \<not> is_control c \<and> \<not> is_invalid_fs_url c) ?rid"
    unfolding list_all_iff using sanitize_filename_storage_safe[of _ "''task_'' @ str_int (py_int now) @ ''_'' @ task req"]
    by (auto simp only: storage_safe_def)
  moreover have "?rid \<noteq> task req" by (rule research_id_differs_from_task)
  ultimately show ?thesis by blast
qed

theorem job_identity_sanitized_witness:
  "fst (generate_report example_services (1001 / 10) example_request example_world) =
     Inr (JObj [(''message'', JStr ''Your report is being generated in the background. Please check back later.''), (''research_id'', JStr ''task_100_foo'')])
   \<and> (\<exists>rid. field (JObj [(''message'', JStr ''Your report is being generated in the background. Please check back later.''), (''research_id'', JStr ''task_100_foo'')]) ''research_id'' = Some (JStr rid)
           \<and> rid = sanitize_filename (''task_'' @ str_int (py_int (1001 / 10)) @ ''_'' @ task example_request)
           \<and> list_all (\<lambda>c. \<not> is_path_separator c \<and> \<not> is_control c \<and> \<not> is_invalid_fs_url c) rid
           \<and> rid \<noteq> task example_request)"
  by (intro conjI, rule example_submission_first, rule job_identity_sanitized[OF example_submission_first])


text \<open>
  C2. A tone that is no member of the enumeration is found only where
  \<^verbatim>\<open>write_report\<close> evaluates \<^verbatim>\<open>Tone[...]\<close>. In foreground mode
  \<^verbatim>\<open>generate_report\<close> therefore raises the \<^verbatim>\<open>KeyError\<close> to its caller,
  and it queues no task and leaves the file system alone. In background mode the
  submission is acknowledged and its task is queued; the \<^verbatim>\<open>KeyError\<close> is
  raised when the queued \<^verbatim>\<open>write_report\<close> runs.
\<close>

theorem invalid_tone_reporting:
  assumes "Tone S (tone req) = None"
  shows "(\<not> generate_in_background req \<longrightarrow>
            fst (generate_report S now req w) = Inl (KeyError (tone req))
          \<and> background_tasks (snd (generate_report S now req w)) = background_tasks w
          \<and> fsys (snd (generate_report S now req w)) = fsys w)
       \<and> (generate_in_background req \<longrightarrow>
            (\<exists>rid. fst (generate_report S now req w) =
                     Inr (JObj [(''message'', JStr ''Your report is being generated in the background. Please check back later.''),
                                (''research_id'', JStr rid)])
               \<and> background_tasks (snd (generate_report S now req w)) = background_tasks w @ [(req, rid)]
               \<and> fst (write_report S req rid (snd (generate_report S now req w))) = Inl (KeyError (tone req))))"
  using assms
  by (simp add: generate_report_def Let_def write_report_invalid_tone write_report_world)

theorem invalid_tone_reporting_witness:
  "Tone example_services (tone (example_request\<lparr>tone := ''Sarcastic'', generate_in_background := False\<rparr>)) = None
   \<and> \<not> generate_in_background (example_request\<lparr>tone := ''Sarcastic'', generate_in_background := False\<rparr>)
   \<and> fst (generate_report example_services (1001 / 10) (example_request\<lparr>tone := ''Sarcastic'', generate_in_background := False\<rparr>) example_world) = Inl (KeyError ''Sarcastic'')
   \<and> background_tasks (snd (generate_report example_services (1001 / 10) (example_request\<lparr>tone := ''Sarcastic'', generate_in_background := False\<rparr>) example_world)) =
       background_tasks example_world"
proof -
  have h: "Tone example_services (tone (example_request\<lparr>tone := ''Sarcastic'', generate_in_background := False\<rparr>)) = None"
    by code_simp
  have b: "\<not> generate_in_background (example_request\<lparr>tone := ''Sarcastic'', generate_in_background := False\<rparr>)"
    by (simp add: example_request_def)
  have t: "tone (example_request\<lparr>tone := ''Sarcastic'', generate_in_background := False\<rparr>) = ''Sarcastic''"
    by (simp add: example_request_def)
  from invalid_tone_reporting[OF h, of "1001 / 10" example_world] b
  have "fst (generate_report example_services (1001 / 10) (example_request\<lparr>tone := ''Sarcastic'', generate_in_background := False\<rparr>) example_world) = Inl (KeyError (tone (example_request\<lparr>tone := ''Sarcastic'', generate_in_background := False\<rparr>)))
      \<and> background_tasks (snd (generate_report example_services (1001 / 10) (example_request\<lparr>tone := ''Sarcastic'', generate_in_background := False\<rparr>) example_world)) =
          background_tasks example_world"
    by blast
  then have "fst (generate_report example_services (1001 / 10) (example_request\<lparr>tone := ''Sarcastic'', generate_in_background := False\<rparr>) example_world) = Inl (KeyError ''Sarcastic'')
      \<and> background_tasks (snd (generate_report example_services (1001 / 10) (example_request\<lparr>tone := ''Sarcastic'', generate_in_background := False\<rparr>) example_world)) =
          background_tasks example_world"
    by (simp only: t)
  with h b show ?thesis by blast
qed

text \<open>
  C2 as written fails: a background submission with the tone
  \<^verbatim>\<open>Sarcastic\<close>, which is no member, is acknowledged as queued and its task is
  in the queue.
\<close>

theorem invalid_tone_queued:
  "Tone example_services ''Sarcastic'' = None
   \<and> generate_in_background (example_request\<lparr>tone := ''Sarcastic''\<rparr>)
   \<and> fst (generate_report example_services (1001 / 10) (example_request\<lparr>tone := ''Sarcastic''\<rparr>) example_world) =
       Inr (JObj [(''message'', JStr ''Your report is being generated in the background. Please check back later.''), (''research_id'', JStr ''task_100_foo'')])
   \<and> map snd (background_tasks (snd (generate_report example_services (1001 / 10) (example_request\<lparr>tone := ''Sarcastic''\<rparr>) example_world))) =
       [''task_100_foo'']"
  by code_simp

text \<open>
  C4. \<^verbatim>\<open>write_report\<close> writes the environment of the process:
  \<^verbatim>\<open>DOC_PATH\<close> becomes the \<^verbatim>\<open>docs\<close> directory of the knowledge base when
  a non-empty one is named, \<^verbatim>\<open>DEEP_RESEARCH_DEPTH\<close> and
  \<^verbatim>\<open>DEEP_RESEARCH_BREADTH\<close> are set when a non-empty configuration is given,
  and it assigns no other variable. With neither, it leaves the environment as it
  was.
\<close>

theorem write_report_environment:
  "(\<forall>kb. knowledge_base req = Some kb \<and> kb \<noteq> [] \<longrightarrow>
         environ (snd (write_report S req rid w)) ''DOC_PATH'' =
           Some (os_path_join (os_path_join (environ_get (environ w) ''VECTOR_STORE_PATH'' ''vector_store'') kb) ''docs''))
   \<and> (\<forall>cfg. deep_research_config req = Some cfg \<and> cfg \<noteq> [] \<longrightarrow>
         environ (snd (write_report S req rid w)) ''DEEP_RESEARCH_DEPTH'' =
           Some (str_int (dict_get cfg ''max_iterations'' 2))
       \<and> environ (snd (write_report S req rid w)) ''DEEP_RESEARCH_BREADTH'' =
           Some (str_int (dict_get cfg ''max_search_results_per_query'' 4)))
   \<and> (\<forall>k. k \<notin> {''DOC_PATH'', ''DEEP_RESEARCH_DEPTH'', ''DEEP_RESEARCH_BREADTH''} \<longrightarrow>
         environ (snd (write_report S req rid w)) k = environ w k)
   \<and> ((knowledge_base req = None \<or> knowledge_base req = Some []) \<and>
      (deep_research_config req = None \<or> deep_research_config req = Some [] ) \<longrightarrow>
         environ (snd (write_report S req rid w)) = environ w)"
proof -
  have e: "environ (snd (write_report S req rid w)) = snd (configure_environment req (environ w))"
    by (simp add: write_report_world)
  show ?thesis
    unfolding e
    using configure_environment_doc_path[of req _ "environ w"]
      configure_environment_deep[of req _ "environ w"]
      configure_environment_other[of _ req "environ w"]
      configure_environment_none[of req "environ w"]
    by (simp add: write_report_world)
qed

theorem write_report_environment_witness:
  "knowledge_base (example_request\<lparr>knowledge_base := Some ''kb1''\<rparr>) = Some ''kb1''
   \<and> environ (snd (write_report example_services (example_request\<lparr>knowledge_base := Some ''kb1''\<rparr>) ''task_100_foo'' example_world)) ''DOC_PATH'' =
       Some (os_path_join (os_path_join (environ_get (environ example_world) ''VECTOR_STORE_PATH'' ''vector_store'') ''kb1'') ''docs'')
   \<and> environ (snd (write_report example_services (example_request\<lparr>knowledge_base := Some ''kb1''\<rparr>) ''task_100_foo'' example_world)) ''VECTOR_STORE_PATH'' =
       environ example_world ''VECTOR_STORE_PATH''"
  using write_report_environment[where S = example_services
      and req = "example_request\<lparr>knowledge_base := Some ''kb1''\<rparr>"
      and rid = "''task_100_foo''" and w = example_world]
  by (simp add: example_request_def)

text \<open>
  C4 as written fails: with the knowledge base \<^verbatim>\<open>kb1\<close> the job sets
  \<^verbatim>\<open>DOC_PATH\<close>, which was unset, and a second job with \<^verbatim>\<open>kb2\<close> overwrites
  what the first one wrote.
\<close>

theorem write_report_changes_environment:
  "environ example_world ''DOC_PATH'' = None
   \<and> environ (snd (write_report example_services (example_request\<lparr>knowledge_base := Some ''kb1''\<rparr>) ''task_100_foo'' example_world)) ''DOC_PATH'' =
       Some ''vector_store/kb1/docs''
   \<and> environ (snd (write_report example_services (example_request\<lparr>knowledge_base := Some ''kb2''\<rparr>) ''task_100_bar''
         (snd (write_report example_services (example_request\<lparr>knowledge_base := Some ''kb1''\<rparr>) ''task_100_foo'' example_world)))) ''DOC_PATH'' =
       Some ''vector_store/kb2/docs''"
  by code_simp

text \<open>
  C7. In foreground mode \<^verbatim>\<open>generate_report\<close> runs \<^verbatim>\<open>write_report\<close>
  itself. Either it raises: the \<^verbatim>\<open>KeyError\<close> of the tone, or what the
  computation or a renderer raised. Or it returns a payload made from what the
  computation and the renderers returned: the identity and the two artifact paths,
  and for a report type other than \<^verbatim>\<open>multi_agents\<close> the report text and the
  research information (source URLs, costs, visited URLs, images); for
  \<^verbatim>\<open>multi_agents\<close> the report text is empty and there is no research
  information.
\<close>

theorem foreground_result:
  assumes "\<not> generate_in_background req"
  shows "let rid = sanitize_filename (''task_'' @ str_int (py_int now) @ ''_'' @ task req) in
         case fst (generate_report S now req w) of
           Inl e \<Rightarrow>
               (Tone S (tone req) = None \<and> e = KeyError (tone req))
             \<or> (\<exists>a env. run_agent S a env = Inl e)
             \<or> (\<exists>report. write_md_to_word S report rid = Inl e \<or> write_md_to_pdf S report rid = Inl e)
         | Inr p \<Rightarrow>
             (\<exists>t a report r docx pdf.
                 Tone S (tone req) = Some t \<and> agent_task a = task req \<and> agent_tone a = t
               \<and> run_agent S a (environ (snd (generate_report S now req w))) = Inr (report, r)
               \<and> write_md_to_word S report rid = Inr docx \<and> write_md_to_pdf S report rid = Inr pdf
               \<and> field p ''research_id'' = Some (JStr rid)
               \<and> field p ''docx_path'' = Some (JStr docx) \<and> field p ''pdf_path'' = Some (JStr pdf)
               \<and> (if report_type req \<noteq> ''multi_agents''
                  then field p ''report'' = Some (JStr report)
                     \<and> field p ''research_information'' =
                         Some (JObj [(''source_urls'', JList (map JStr (get_source_urls r))),
                                     (''research_costs'', JNum (get_costs r)),
                                     (''visited_urls'', JList (map JStr (visited_urls r))),
                                     (''research_images'', JList (map JStr (get_research_images r)))])
                  else field p ''report'' = Some (JStr [])
                     \<and> field p ''research_information'' = None))"
proof -
  define rid where "rid = sanitize_filename (''task_'' @ str_int (py_int now) @ ''_'' @ task req)"
  have g: "generate_report S now req w = write_report S req rid w"
    using assms by (simp add: generate_report_def rid_def)
  show ?thesis
  proof (cases "fst (write_report S req rid w)")
    case (Inl e)
    from write_report_failure[OF Inl] show ?thesis
      unfolding Let_def rid_def[symmetric] g Inl by simp
  next
    case (Inr p)
    from write_report_success[OF Inr] obtain t a report r docx pdf where
      h: "Tone S (tone req) = Some t" "agent_task a = task req" "agent_tone a = t"
         "run_agent S a (environ (snd (write_report S req rid w))) = Inr (report, r)"
         "write_md_to_word S report rid = Inr docx" "write_md_to_pdf S report rid = Inr pdf"
         "p = report_response req rid (report, r) docx pdf"
      by blast
    have "field p ''research_id'' = Some (JStr rid)
        \<and> field p ''docx_path'' = Some (JStr docx) \<and> field p ''pdf_path'' = Some (JStr pdf)
        \<and> (if report_type req \<noteq> ''multi_agents''
                  then field p ''report'' = Some (JStr report)
                     \<and> field p ''research_information'' =
                         Some (JObj [(''source_urls'', JList (map JStr (get_source_urls r))),
                                     (''research_costs'', JNum (get_costs r)),
                                     (''visited_urls'', JList (map JStr (visited_urls r))),
                                     (''research_images'', JList (map JStr (get_research_images r)))])
                  else field p ''report'' = Some (JStr [])
                     \<and> field p ''research_information'' = None)"
      unfolding h(7) by (simp add: report_response_fields report_response_research_id)
    with h(1-6) show ?thesis
      unfolding Let_def rid_def[symmetric] g Inr by (simp only: sum.case) blast
  qed
qed

lemma example_foreground_submission: "\<not> generate_in_background (example_request\<lparr>generate_in_background := False\<rparr>)"
  by (simp add: example_request_def)

theorem foreground_result_witness:
  "\<not> generate_in_background (example_request\<lparr>generate_in_background := False\<rparr>)
   \<and> fst (generate_report example_services (1001 / 10) (example_request\<lparr>generate_in_background := False\<rparr>) example_world) =
       Inr (JObj
            [(''research_id'', JStr ''task_100_foo''),
             (''research_information'', JObj
                [(''source_urls'', JList [JStr ''https://example.org/a'']),
                 (''research_costs'', JNum (1 / 4)),
                 (''visited_urls'', JList [JStr ''https://example.org/a'', JStr ''https://example.org/b'']),
                 (''research_images'', JList [])]),
             (''report'', JStr ''# foo''),
             (''docx_path'', JStr ''outputs/task_100_foo.docx''),
             (''pdf_path'', JStr ''outputs/task_100_foo.pdf'')])
   \<and> (let rid = sanitize_filename (''task_'' @ str_int (py_int (1001 / 10)) @ ''_'' @ task (example_request\<lparr>generate_in_background := False\<rparr>)) in
         case fst (generate_report example_services (1001 / 10) (example_request\<lparr>generate_in_background := False\<rparr>) example_world) of
           Inl e \<Rightarrow>
               (Tone example_services (tone (example_request\<lparr>generate_in_background := False\<rparr>)) = None \<and> e = KeyError (tone (example_request\<lparr>generate_in_background := False\<rparr>)))
             \<or> (\<exists>a env. run_agent example_services a env = Inl e)
             \<or> (\<exists>report. write_md_to_word example_services report rid = Inl e
                        \<or> write_md_to_pdf example_services report rid = Inl e)
         | Inr p \<Rightarrow>
             (\<exists>t a report r docx pdf.
                 Tone example_services (tone (example_request\<lparr>generate_in_background := False\<rparr>)) = Some t \<and> agent_task a = task (example_request\<lparr>generate_in_background := False\<rparr>) \<and> agent_tone a = t
               \<and> run_agent example_services a
                    (environ (snd (generate_report example_services (1001 / 10) (example_request\<lparr>generate_in_background := False\<rparr>) example_world))) = Inr (report, r)
               \<and> write_md_to_word example_services report rid = Inr docx
               \<and> write_md_to_pdf example_services report rid = Inr pdf
               \<and> field p ''research_id'' = Some (JStr rid)
               \<and> field p ''docx_path'' = Some (JStr docx) \<and> field p ''pdf_path'' = Some (JStr pdf)
               \<and> (if report_type (example_request\<lparr>generate_in_background := False\<rparr>) \<noteq> ''multi_agents''
                  then field p ''report'' = Some (JStr report)
                     \<and> field p ''research_information'' =
                         Some (JObj [(''source_urls'', JList (map JStr (get_source_urls r))),
                                     (''research_costs'', JNum (get_costs r)),
                                     (''visited_urls'', JList (map JStr (visited_urls r))),
                                     (''research_images'', JList (map JStr (get_research_images r)))])
                  else field p ''report'' = Some (JStr [])
                     \<and> field p ''research_information'' = None)))"
proof (intro conjI)
  show "\<not> generate_in_background (example_request\<lparr>generate_in_background := False\<rparr>)"
    by (rule example_foreground_submission)
  show "fst (generate_report example_services (1001 / 10) (example_request\<lparr>generate_in_background := False\<rparr>) example_world) =
       Inr (JObj
            [(''research_id'', JStr ''task_100_foo''),
             (''research_information'', JObj
                [(''source_urls'', JList [JStr ''https://example.org/a'']),
                 (''research_costs'', JNum (1 / 4)),
                 (''visited_urls'', JList [JStr ''https://example.org/a'', JStr ''https://example.org/b'']),
                 (''research_images'', JList [])]),
             (''report'', JStr ''# foo''),
             (''docx_path'', JStr ''outputs/task_100_foo.docx''),
             (''pdf_path'', JStr ''outputs/task_100_foo.pdf'')])"
    by code_simp
qed (rule foreground_result[OF example_foreground_submission])

text \<open>
  C7 as written fails: a foreground job of the report type
  \<^verbatim>\<open>multi_agents\<close> completes with a payload that has no costs and no visited
  URLs, and whose report text is empty although the computation returned
  \<^verbatim>\<open># foo\<close>.
\<close>

theorem foreground_multi_agents_payload:
  "fst (generate_report example_services (1001 / 10) (example_request\<lparr>report_type := ''multi_agents'', generate_in_background := False\<rparr>) example_world) =
     Inr (JObj [(''research_id'', JStr ''task_100_foo''), (''report'', JStr []),
                (''docx_path'', JStr ''outputs/task_100_foo.docx''),
                (''pdf_path'', JStr ''outputs/task_100_foo.pdf'')])
   \<and> run_agent example_services
         \<lparr>agent_task = ''foo'', agent_report_type = ''multi_agents'', agent_report_source = ''web'',
          agent_source_urls = [], agent_document_urls = [], agent_tone = ''Objective'',
          agent_headers = None, agent_query_domains = [], agent_config_path = [],
          agent_vector_store_path = None\<rparr> Map.empty = Inr (''# foo'', example_researcher)"
  by code_simp

text \<open>
  C5. For a job identity, which as a parameter of the route
  \<^verbatim>\<open>/report/{research_id}\<close> does not begin with a slash, \<^verbatim>\<open>read_report\<close>
  answers with the file \<^verbatim>\<open>outputs/<id>.docx\<close> when that path exists, and
  otherwise with the message \<^verbatim>\<open>Report not found.\<close>; the status is 200 either
  way. Queuing a job changes neither answer, so a job that is queued and not yet
  rendered is answered with the message.
\<close>

theorem read_report_found_or_not:
  assumes "take 1 rid \<noteq> ''/''"
  shows "read_report rid w =
           (if os_path_exists (fsys w) (''outputs/'' @ rid @ ''.docx'')
            then FileResponse (''outputs/'' @ rid @ ''.docx'')
            else Body (JObj [(''message'', JStr ''Report not found.'')]))
       \<and> status_code (read_report rid w) = 200
       \<and> (generate_in_background req \<longrightarrow>
            read_report rid (snd (generate_report S now req w)) = read_report rid w)"
  using os_path_join_outputs[OF assms]
  by (simp add: read_report_def generate_report_def Let_def)

lemma example_report_missing:
  "os_path_exists (fsys example_world) ''outputs/task_100_foo.docx'' = False"
  by code_simp

lemma example_report_present:
  "os_path_exists (fsys example_world_rendered) ''outputs/task_100_foo.docx'' = True"
  by code_simp

theorem read_report_found_or_not_witness:
  "take 1 ''task_100_foo'' \<noteq> ''/''
   \<and> read_report ''task_100_foo'' example_world = Body (JObj [(''message'', JStr ''Report not found.'')])
   \<and> status_code (read_report ''task_100_foo'' example_world) = 200
   \<and> read_report ''task_100_foo'' example_world_rendered = FileResponse ''outputs/task_100_foo.docx''"
proof -
  have h: "take 1 ''task_100_foo'' \<noteq> ''/''" by simp
  from read_report_found_or_not[OF h, of example_world, THEN conjunct1]
    read_report_found_or_not[OF h, of example_world, THEN conjunct2, THEN conjunct1]
  have a: "read_report ''task_100_foo'' example_world = Body (JObj [(''message'', JStr ''Report not found.'')])
         \<and> status_code (read_report ''task_100_foo'' example_world) = 200"
    by (simp add: example_report_missing)
  from read_report_found_or_not[OF h, of example_world_rendered, THEN conjunct1]
  have b: "read_report ''task_100_foo'' example_world_rendered = FileResponse ''outputs/task_100_foo.docx''"
    by (simp add: example_report_present)
  from h a b show ?thesis by blast
qed

section \<open>Uploads and knowledge bases\<close>

text \<open>
  C10. An upload with the empty knowledge-base name is answered with status 400 and
  a message, and the state is returned as it was: no directory is made and the
  upload handler is not called.
\<close>

theorem upload_file_empty_name:
  "upload_file S file [] w =
     (Inr (JSONResponse 400 (JObj [(''message'', JStr ''Knowledge base name is required.'')])), w)"
  by (simp add: upload_file_def)

text \<open>
  C9. An upload with a non-empty knowledge-base name, on a path where no regular
  file stands in the way, makes \<^verbatim>\<open><root>/<knowledge_base>/docs\<close> a directory,
  and with it \<^verbatim>\<open><root>/<knowledge_base>\<close> and every other path it leads
  through, and keeps every entry there was; when the \<^verbatim>\<open>docs\<close> directory
  exists already the file system is left as it is. Only then is the upload handler called, with the
  \<^verbatim>\<open>docs\<close> path, on the file system that has the directories.
\<close>

theorem upload_file_creates_directories:
  assumes "kb_name \<noteq> []" and "wf_fs (fsys w)"
    and "unobstructed (fsys w)
           (os_path_join (os_path_join (environ_get (environ w) ''VECTOR_STORE_PATH'' ''vector_store'') kb_name) ''docs'')"
  shows "\<exists>fs1.
           os_makedirs (fsys w)
             (os_path_join (os_path_join (environ_get (environ w) ''VECTOR_STORE_PATH'' ''vector_store'') kb_name) ''docs'') = Inr fs1
         \<and> os_path_isdir fs1 (os_path_join (environ_get (environ w) ''VECTOR_STORE_PATH'' ''vector_store'') kb_name)
         \<and> os_path_isdir fs1
             (os_path_join (os_path_join (environ_get (environ w) ''VECTOR_STORE_PATH'' ''vector_store'') kb_name) ''docs'')
         \<and> (\<forall>x y. os_path_join (os_path_join (environ_get (environ w) ''VECTOR_STORE_PATH'' ''vector_store'') kb_name) ''docs''
                    = x @ CHR ''/'' # y \<and> x \<noteq> []
                 \<longrightarrow> os_path_isdir fs1 x)
         \<and> (\<forall>q n. lookup (fsys w) q = Some n \<longrightarrow> lookup fs1 q = Some n)
         \<and> (os_path_isdir (fsys w)
               (os_path_join (os_path_join (environ_get (environ w) ''VECTOR_STORE_PATH'' ''vector_store'') kb_name) ''docs'')
              \<longrightarrow> fs1 = fsys w)
         \<and> upload_file S file kb_name w =
             (case handle_file_upload S file
                     (os_path_join (os_path_join (environ_get (environ w) ''VECTOR_STORE_PATH'' ''vector_store'') kb_name) ''docs'')
                     fs1 of
                (r, fs2) \<Rightarrow> (map_sum id Body r, w\<lparr>fsys := fs2\<rparr>))"
proof -
  let ?kb = "os_path_join (environ_get (environ w) ''VECTOR_STORE_PATH'' ''vector_store'') kb_name"
  let ?doc = "os_path_join ?kb ''docs''"
  have kb: "?kb \<noteq> []" using assms(1) by (rule os_path_join_nonempty)
  have doc: "?doc \<noteq> []" by (rule os_path_join_nonempty) simp
  from os_makedirs_creates[OF assms(2) doc assms(3)] obtain fs1 where
    m: "os_makedirs (fsys w) ?doc = Inr fs1" and i: "os_path_isdir fs1 ?doc"
    and p: "\<forall>q n. lookup (fsys w) q = Some n \<longrightarrow> lookup fs1 q = Some n"
    by blast
  have ik: "os_path_isdir fs1 ?kb" using kb valid_name_docs i by (rule isdir_join_parent)
  have pre: "\<forall>x y. ?doc = x @ CHR ''/'' # y \<and> x \<noteq> [] \<longrightarrow> os_path_isdir fs1 x"
    using i isdir_prefix by metis
  have ex: "os_path_isdir (fsys w) ?doc \<longrightarrow> fs1 = fsys w"
    using os_makedirs_existing[of "fsys w" ?doc] m by auto
  have u: "upload_file S file kb_name w =
             (case handle_file_upload S file ?doc fs1 of
                (r, fs2) \<Rightarrow> (map_sum id Body r, w\<lparr>fsys := fs2\<rparr>))"
    using assms(1) m by (simp add: upload_file_def Let_def)
  from m ik i pre p ex u show ?thesis by blast
qed

lemma example_fs_wf: "wf_fs (fsys example_world)"
  by code_simp

lemma example_kb_unobstructed: "unobstructed (fsys example_world) (os_path_join (os_path_join (environ_get (environ example_world) ''VECTOR_STORE_PATH'' ''vector_store'') ''kb1'') ''docs'')"
  by code_simp

theorem upload_file_creates_directories_witness:
  "''kb1'' \<noteq> []
   \<and> wf_fs (fsys example_world)
   \<and> unobstructed (fsys example_world) (os_path_join (os_path_join (environ_get (environ example_world) ''VECTOR_STORE_PATH'' ''vector_store'') ''kb1'') ''docs'')
   \<and> fst (upload_file example_services example_upload ''kb1'' example_world) =
       Inr (Body (JObj [(''filename'', JStr ''a.txt''), (''path'', JStr ''vector_store/kb1/docs/a.txt'')]))
   \<and> entries (fsys (snd (upload_file example_services example_upload ''kb1'' example_world))) =
       [([''srv''], Dir), ([''srv'', ''outputs''], Dir), ([''srv'', ''vector_store''], Dir),
        ([''srv'', ''notes.txt''], File ''n''), ([''srv'', ''vector_store'', ''kb1''], Dir),
        ([''srv'', ''vector_store'', ''kb1'', ''docs''], Dir),
        ([''srv'', ''vector_store'', ''kb1'', ''docs'', ''a.txt''], File ''hello'')]
   \<and> (\<exists>fs1.
           os_makedirs (fsys example_world) (os_path_join (os_path_join (environ_get (environ example_world) ''VECTOR_STORE_PATH'' ''vector_store'') ''kb1'') ''docs'') = Inr fs1
         \<and> os_path_isdir fs1 (os_path_join (environ_get (environ example_world) ''VECTOR_STORE_PATH'' ''vector_store'') ''kb1'')
         \<and> os_path_isdir fs1 (os_path_join (os_path_join (environ_get (environ example_world) ''VECTOR_STORE_PATH'' ''vector_store'') ''kb1'') ''docs'')
         \<and> (\<forall>x y. os_path_join (os_path_join (environ_get (environ example_world) ''VECTOR_STORE_PATH'' ''vector_store'') ''kb1'') ''docs''
                    = x @ CHR ''/'' # y \<and> x \<noteq> []
                 \<longrightarrow> os_path_isdir fs1 x)
         \<and> (\<forall>q n. lookup (fsys example_world) q = Some n \<longrightarrow> lookup fs1 q = Some n)
         \<and> (os_path_isdir (fsys example_world) (os_path_join (os_path_join (environ_get (environ example_world) ''VECTOR_STORE_PATH'' ''vector_store'') ''kb1'') ''docs'') \<longrightarrow> fs1 = fsys example_world)
         \<and> upload_file example_services example_upload ''kb1'' example_world =
             (case handle_file_upload example_services example_upload (os_path_join (os_path_join (environ_get (environ example_world) ''VECTOR_STORE_PATH'' ''vector_store'') ''kb1'') ''docs'') fs1 of
                (r, fs2) \<Rightarrow> (map_sum id Body r, example_world\<lparr>fsys := fs2\<rparr>)))"
proof (intro conjI)
  show "''kb1'' \<noteq> []" by simp
  show "wf_fs (fsys example_world)" by (rule example_fs_wf)
  show "unobstructed (fsys example_world) (os_path_join (os_path_join (environ_get (environ example_world) ''VECTOR_STORE_PATH'' ''vector_store'') ''kb1'') ''docs'')" by (rule example_kb_unobstructed)
  show "fst (upload_file example_services example_upload ''kb1'' example_world) =
       Inr (Body (JObj [(''filename'', JStr ''a.txt''), (''path'', JStr ''vector_store/kb1/docs/a.txt'')]))"
    by code_simp
  show "entries (fsys (snd (upload_file example_services example_upload ''kb1'' example_world))) =
       [([''srv''], Dir), ([''srv'', ''outputs''], Dir), ([''srv'', ''vector_store''], Dir),
        ([''srv'', ''notes.txt''], File ''n''), ([''srv'', ''vector_store'', ''kb1''], Dir),
        ([''srv'', ''vector_store'', ''kb1'', ''docs''], Dir),
        ([''srv'', ''vector_store'', ''kb1'', ''docs'', ''a.txt''], File ''hello'')]"
    by code_simp
  have ne: "''kb1'' \<noteq> []" by simp
  show "\<exists>fs1.
           os_makedirs (fsys example_world) (os_path_join (os_path_join (environ_get (environ example_world) ''VECTOR_STORE_PATH'' ''vector_store'') ''kb1'') ''docs'') = Inr fs1
         \<and> os_path_isdir fs1 (os_path_join (environ_get (environ example_world) ''VECTOR_STORE_PATH'' ''vector_store'') ''kb1'')
         \<and> os_path_isdir fs1 (os_path_join (os_path_join (environ_get (environ example_world) ''VECTOR_STORE_PATH'' ''vector_store'') ''kb1'') ''docs'')
         \<and> (\<forall>x y. os_path_join (os_path_join (environ_get (environ example_world) ''VECTOR_STORE_PATH'' ''vector_store'') ''kb1'') ''docs''
                    = x @ CHR ''/'' # y \<and> x \<noteq> []
                 \<longrightarrow> os_path_isdir fs1 x)
         \<and> (\<forall>q n. lookup (fsys example_world) q = Some n \<longrightarrow> lookup fs1 q = Some n)
         \<and> (os_path_isdir (fsys example_world) (os_path_join (os_path_join (environ_get (environ example_world) ''VECTOR_STORE_PATH'' ''vector_store'') ''kb1'') ''docs'') \<longrightarrow> fs1 = fsys example_world)
         \<and> upload_file example_services example_upload ''kb1'' example_world =
             (case handle_file_upload example_services example_upload (os_path_join (os_path_join (environ_get (environ example_world) ''VECTOR_STORE_PATH'' ''vector_store'') ''kb1'') ''docs'') fs1 of
                (r, fs2) \<Rightarrow> (map_sum id Body r, example_world\<lparr>fsys := fs2\<rparr>))"
    by (rule upload_file_creates_directories[OF ne example_fs_wf example_kb_unobstructed])
qed

text \<open>
  C8. On a well-formed file system \<^verbatim>\<open>get_knowledge_bases\<close> returns a list
  without repetitions whose members are exactly the names of the directories in
  the directory that \<^verbatim>\<open>VECTOR_STORE_PATH\<close> (or \<^verbatim>\<open>vector_store\<close>) names, and
  the empty list when that path is no directory. After an upload to a knowledge
  base with a plain name has returned, under a root that is not the empty string
  (on which the server does not start) and with an upload handler that keeps the
  directories, the name is in the listing exactly once.
\<close>

theorem knowledge_base_listing:
  assumes "wf_fs (fsys w)"
  shows "(\<exists>ds. get_knowledge_bases w = Inr (JObj [(''knowledge_bases'', JList (map JStr ds))])
            \<and> distinct ds
            \<and> set ds = {d. \<exists>q. resolve (fsys w) (environ_get (environ w) ''VECTOR_STORE_PATH'' ''vector_store'') = Some q
                            \<and> lookup (fsys w) q = Some Dir \<and> lookup (fsys w) (q @ [d]) = Some Dir}
            \<and> (\<not> os_path_isdir (fsys w) (environ_get (environ w) ''VECTOR_STORE_PATH'' ''vector_store'') \<longrightarrow> ds = []))
       \<and> (\<forall>S file kb r w'.
             valid_name kb
           \<and> environ_get (environ w) ''VECTOR_STORE_PATH'' ''vector_store'' \<noteq> []
           \<and> upload_file S file kb w = (Inr r, w')
           \<and> (case os_makedirs (fsys w)
                      (os_path_join (os_path_join (environ_get (environ w) ''VECTOR_STORE_PATH'' ''vector_store'') kb) ''docs'') of
                 Inl e \<Rightarrow> False
               | Inr fs1 \<Rightarrow> keeps_directories fs1 (fsys w'))
           \<longrightarrow> (\<exists>ds. get_knowledge_bases w' = Inr (JObj [(''knowledge_bases'', JList (map JStr ds))])
                    \<and> count_list ds kb = 1))"
proof (intro conjI allI impI)
  show "\<exists>ds. get_knowledge_bases w = Inr (JObj [(''knowledge_bases'', JList (map JStr ds))])
            \<and> distinct ds
            \<and> set ds = {d. \<exists>q. resolve (fsys w) (environ_get (environ w) ''VECTOR_STORE_PATH'' ''vector_store'') = Some q
                            \<and> lookup (fsys w) q = Some Dir \<and> lookup (fsys w) (q @ [d]) = Some Dir}
            \<and> (\<not> os_path_isdir (fsys w) (environ_get (environ w) ''VECTOR_STORE_PATH'' ''vector_store'') \<longrightarrow> ds = [])"
    by (rule get_knowledge_bases_listing[OF assms])
next
  fix S f kb r w'
  assume h: "valid_name kb
           \<and> environ_get (environ w) ''VECTOR_STORE_PATH'' ''vector_store'' \<noteq> []
           \<and> upload_file S f kb w = (Inr r, w')
           \<and> (case os_makedirs (fsys w)
                      (os_path_join (os_path_join (environ_get (environ w) ''VECTOR_STORE_PATH'' ''vector_store'') kb) ''docs'') of
                 Inl e \<Rightarrow> False
               | Inr fs1 \<Rightarrow> keeps_directories fs1 (fsys w'))"
  show "\<exists>ds. get_knowledge_bases w' = Inr (JObj [(''knowledge_bases'', JList (map JStr ds))])
                    \<and> count_list ds kb = 1"
    by (rule listing_after_upload[OF assms h[THEN conjunct1] h[THEN conjunct2, THEN conjunct1]
          h[THEN conjunct2, THEN conjunct2, THEN conjunct1]
          h[THEN conjunct2, THEN conjunct2, THEN conjunct2]])
qed

lemma example_upload_returns:
  "fst (upload_file example_services example_upload ''kb1'' example_world) =
     Inr (Body (JObj [(''filename'', JStr ''a.txt''), (''path'', JStr ''vector_store/kb1/docs/a.txt'')]))"
  by code_simp

lemma example_upload_keeps_directories:
  "case os_makedirs (fsys example_world) (os_path_join (os_path_join (environ_get (environ example_world) ''VECTOR_STORE_PATH'' ''vector_store'') ''kb1'') ''docs'') of
     Inl e \<Rightarrow> False
   | Inr fs1 \<Rightarrow> keeps_directories fs1 (fsys (snd (upload_file example_services example_upload ''kb1'' example_world)))"
  by code_simp

theorem knowledge_base_listing_witness:
  "wf_fs (fsys example_world)
   \<and> valid_name ''kb1''
   \<and> get_knowledge_bases example_world = Inr (JObj [(''knowledge_bases'', JList [])])
   \<and> get_knowledge_bases (snd (upload_file example_services example_upload ''kb1'' example_world)) = Inr (JObj [(''knowledge_bases'', JList [JStr ''kb1''])])
   \<and> (\<exists>ds. get_knowledge_bases (snd (upload_file example_services example_upload ''kb1'' example_world)) = Inr (JObj [(''knowledge_bases'', JList (map JStr ds))])
           \<and> count_list ds ''kb1'' = 1)"
proof (intro conjI)
  show "wf_fs (fsys example_world)" by (rule example_fs_wf)
  show v: "valid_name ''kb1''" by code_simp
  show "get_knowledge_bases example_world = Inr (JObj [(''knowledge_bases'', JList [])])"
    by code_simp
  show "get_knowledge_bases (snd (upload_file example_services example_upload ''kb1'' example_world)) = Inr (JObj [(''knowledge_bases'', JList [JStr ''kb1''])])"
    by code_simp
  have ne: "(environ_get (environ example_world) ''VECTOR_STORE_PATH'' ''vector_store'') \<noteq> []" by code_simp
  have up: "upload_file example_services example_upload ''kb1'' example_world =
      (Inr (Body (JObj [(''filename'', JStr ''a.txt''), (''path'', JStr ''vector_store/kb1/docs/a.txt'')])), snd (upload_file example_services example_upload ''kb1'' example_world))"
    using example_upload_returns by (cases "upload_file example_services example_upload ''kb1'' example_world") simp
  from knowledge_base_listing[OF example_fs_wf, THEN conjunct2, rule_format,
      of "''kb1''" example_services example_upload _ "snd (upload_file example_services example_upload ''kb1'' example_world)"] v ne up example_upload_keeps_directories
  show "\<exists>ds. get_knowledge_bases (snd (upload_file example_services example_upload ''kb1'' example_world)) = Inr (JObj [(''knowledge_bases'', JList (map JStr ds))])
           \<and> count_list ds ''kb1'' = 1"
    by blast
qed


end
